theory Spec2Isabelle
  imports Complex_Main "HOL-Library.Monad_Syntax" "HOL-Library.AList"
    "HOL-Library.Char_ord" "HOL-Library.List_Lexorder"
begin

section \<open>Tables of cells\<close>

text \<open>
  The flag engine of \<^verbatim>\<open>risk_utils.py\<close> (batch path) and \<^verbatim>\<open>server.py\<close> (serving
  path) works on a pandas DataFrame. A cell of a table is a number, a piece of text or
  the missing value. Numbers are rationals: the arithmetic of the engine (division by
  100, comparison with thresholds, clipping) is exact here, so rounding and infinities
  of the machine floats are outside the model. A column (Series) is the list of its
  cells; a table has a row count (its index) and its columns in order, by name.
  A raised exception is the result \<open>None\<close>. What the library reads in a text, in
  \<^verbatim>\<open>pd.to_numeric\<close> and in \<^verbatim>\<open>astype(float)\<close>, is a parameter of the engines, and
  \<^verbatim>\<open>df.apply(f, axis=1)\<close> is \<open>f\<close> on every row in order, also on a table without rows.
\<close>

datatype cell = Num rat | Str string | NaN

type_synonym series = "cell list"

record frame =
  nrows :: nat
  columns :: "(string \<times> series) list"

definition wf :: "frame \<Rightarrow> bool" where
  \<comment> \<open>every column has one cell per row, and no column name occurs twice\<close>
  "wf df \<longleftrightarrow> list_all (\<lambda>cs. length (snd cs) = nrows df) (columns df)
     \<and> distinct (map fst (columns df))"

definition has_col :: "frame \<Rightarrow> string \<Rightarrow> bool" where
  \<comment> \<open>\<^verbatim>\<open>c in df.columns\<close>\<close>
  "has_col df c \<longleftrightarrow> c \<in> set (map fst (columns df))"

definition get_col :: "frame \<Rightarrow> string \<Rightarrow> series option" where
  \<comment> \<open>\<^verbatim>\<open>df[c]\<close>; KeyError when the column is absent\<close>
  "get_col df c = map_of (columns df) c"

definition set_col :: "frame \<Rightarrow> string \<Rightarrow> series \<Rightarrow> frame" where
  \<comment> \<open>\<^verbatim>\<open>df[c] = s\<close>: replaces the column in place, or appends a new one\<close>
  "set_col df c s = df\<lparr>columns := AList.update c s (columns df)\<rparr>"

definition set_scalar :: "frame \<Rightarrow> string \<Rightarrow> cell \<Rightarrow> frame" where
  \<comment> \<open>\<^verbatim>\<open>df[c] = v\<close> for a scalar: one copy per row\<close>
  "set_scalar df c v = set_col df c (replicate (nrows df) v)"

definition row_at :: "frame \<Rightarrow> nat \<Rightarrow> (string \<rightharpoonup> cell)" where
  "row_at df i = (\<lambda>c. map_option (\<lambda>s. s ! i) (get_col df c))"

subsection \<open>The pandas operations the engine uses\<close>

fun isnull :: "cell \<Rightarrow> bool" where
  "isnull NaN = True"
| "isnull _ = False"

fun is_text :: "cell \<Rightarrow> bool" where
  "is_text (Str t) = True"
| "is_text _ = False"

definition isnull_all :: "series \<Rightarrow> bool" where
  \<comment> \<open>\<^verbatim>\<open>s.isnull().all()\<close>, true of the empty series\<close>
  "isnull_all s = list_all isnull s"

definition fillna :: "cell \<Rightarrow> series \<Rightarrow> series" where
  "fillna v s = map (\<lambda>c. if isnull c then v else c) s"

fun coerce_cell :: "(string \<Rightarrow> rat option) \<Rightarrow> cell \<Rightarrow> cell" where
  "coerce_cell num_of_text (Num x) = Num x"
| "coerce_cell num_of_text NaN = NaN"
| "coerce_cell num_of_text (Str t) = (case num_of_text t of Some x \<Rightarrow> Num x | None \<Rightarrow> NaN)"

definition to_numeric :: "(string \<Rightarrow> rat option) \<Rightarrow> series \<Rightarrow> series" where
  \<comment> \<open>\<^verbatim>\<open>pd.to_numeric(s, errors='coerce')\<close>; \<open>num_of_text\<close> is the library's reading
      of a text as a number, \<open>None\<close> when the text is not one\<close>
  "to_numeric num_of_text s = map (coerce_cell num_of_text) s"

fun float_cell :: "(string \<Rightarrow> rat option option) \<Rightarrow> cell \<Rightarrow> cell option" where
  "float_cell float_of_text (Num x) = Some (Num x)"
| "float_cell float_of_text NaN = Some NaN"
| "float_cell float_of_text (Str t) =
     (case float_of_text t of None \<Rightarrow> None
      | Some None \<Rightarrow> Some NaN
      | Some (Some x) \<Rightarrow> Some (Num x))"

definition astype_float :: "(string \<Rightarrow> rat option option) \<Rightarrow> series \<Rightarrow> series option" where
  \<comment> \<open>\<^verbatim>\<open>s.astype(float)\<close>; \<open>float_of_text\<close> is Python's \<^verbatim>\<open>float\<close> on a text:
      \<open>None\<close> is its ValueError, \<open>Some None\<close> the float nan\<close>
  "astype_float float_of_text s = those (map (float_cell float_of_text) s)"

fun nums :: "series \<Rightarrow> rat list" where
  "nums [] = []"
| "nums (Num x # s) = x # nums s"
| "nums (c # s) = nums s"

definition series_max :: "series \<Rightarrow> cell option" where
  \<comment> \<open>\<^verbatim>\<open>s.max()\<close>, missing cells skipped, nan when no number is left. On a column that
      holds text, either the reduction or the comparison of its result with a number
      raises TypeError: both are the result \<open>None\<close> here.\<close>
  "series_max s =
     (if list_ex is_text s then None
      else (case nums s of [] \<Rightarrow> Some NaN | x # xs \<Rightarrow> Some (Num (fold max xs x))))"

datatype cmp = GE | GT | LE

fun cmp_num :: "cmp \<Rightarrow> rat \<Rightarrow> rat \<Rightarrow> bool" where
  "cmp_num GE x k \<longleftrightarrow> k \<le> x"
| "cmp_num GT x k \<longleftrightarrow> k < x"
| "cmp_num LE x k \<longleftrightarrow> x \<le> k"

fun cell_cmp :: "cmp \<Rightarrow> cell \<Rightarrow> rat \<Rightarrow> bool option" where
  \<comment> \<open>comparison of a cell with a number (\<^verbatim>\<open>>=\<close>, \<^verbatim>\<open>>\<close>, \<^verbatim>\<open><=\<close>): false on nan,
      TypeError on text\<close>
  "cell_cmp op (Num x) k = Some (cmp_num op x k)"
| "cell_cmp op NaN k = Some False"
| "cell_cmp op (Str t) k = None"

definition series_cmp :: "cmp \<Rightarrow> series \<Rightarrow> rat \<Rightarrow> bool list option" where
  "series_cmp op s k = those (map (\<lambda>c. cell_cmp op c k) s)"

fun cell_div :: "rat \<Rightarrow> cell \<Rightarrow> cell option" where
  "cell_div k (Num x) = Some (Num (x / k))"
| "cell_div k NaN = Some NaN"
| "cell_div k (Str t) = None"

definition series_div :: "series \<Rightarrow> rat \<Rightarrow> series option" where
  "series_div s k = those (map (cell_div k) s)"

fun cell_clip :: "rat \<Rightarrow> rat \<Rightarrow> cell \<Rightarrow> cell option" where
  "cell_clip lower upper (Num x) = Some (Num (min upper (max lower x)))"
| "cell_clip lower upper NaN = Some NaN"
| "cell_clip lower upper (Str t) = None"

definition series_clip :: "series \<Rightarrow> rat \<Rightarrow> rat \<Rightarrow> series option" where
  "series_clip s lower upper = those (map (cell_clip lower upper) s)"

definition series_and :: "bool list \<Rightarrow> bool list \<Rightarrow> bool list" where
  "series_and a b = map2 (\<and>) a b"

definition astype_int :: "bool list \<Rightarrow> series" where
  "astype_int b = map (\<lambda>x. Num (of_bool x)) b"

fun cell_add :: "cell \<Rightarrow> cell \<Rightarrow> cell option" where
  \<comment> \<open>one step of a row sum: a missing cell is skipped, text cannot be added\<close>
  "cell_add (Num a) (Num b) = Some (Num (a + b))"
| "cell_add NaN (Num b) = Some (Num b)"
| "cell_add _ _ = None"

fun sum_axis1 :: "nat \<Rightarrow> series list \<Rightarrow> series option" where
  \<comment> \<open>\<^verbatim>\<open>df[cols].sum(axis=1)\<close> over the selected columns of a table of \<open>n\<close> rows\<close>
  "sum_axis1 n [] = Some (replicate n (Num 0))"
| "sum_axis1 n (s # ss) =
     do { acc \<leftarrow> sum_axis1 n ss; those (map2 cell_add s acc) }"

fun cut_num :: "rat list \<Rightarrow> string list \<Rightarrow> rat \<Rightarrow> cell" where
  \<comment> \<open>\<^verbatim>\<open>pd.cut\<close> on one number: the label of the bin \<open>(lo, hi]\<close> that holds it, nan when
      no bin does\<close>
  "cut_num (lo # hi # bins) (l # labels) x =
     (if lo < x \<and> x \<le> hi then Str l else cut_num (hi # bins) labels x)"
| "cut_num _ _ x = NaN"

fun cut_cell :: "rat list \<Rightarrow> string list \<Rightarrow> cell \<Rightarrow> cell option" where
  "cut_cell bins labels (Num x) = Some (cut_num bins labels x)"
| "cut_cell bins labels NaN = Some NaN"
| "cut_cell bins labels (Str t) = None"

definition pd_cut :: "series \<Rightarrow> rat list \<Rightarrow> string list \<Rightarrow> series option" where
  "pd_cut s bins labels = those (map (cut_cell bins labels) s)"

definition apply_rows :: "frame \<Rightarrow> ((string \<rightharpoonup> cell) \<Rightarrow> cell option) \<Rightarrow> series option" where
  \<comment> \<open>\<^verbatim>\<open>df.apply(f, axis=1)\<close>: \<open>f\<close> on every row, in order\<close>
  "apply_rows df f = those (map (\<lambda>i. f (row_at df i)) [0..<nrows df])"

fun truthy :: "cell \<Rightarrow> bool" where
  \<comment> \<open>Python's truth value: a number other than zero, a text other than the empty one, nan\<close>
  "truthy (Num x) = (x \<noteq> 0)"
| "truthy (Str t) = (t \<noteq> [])"
| "truthy NaN = True"

fun join :: "string \<Rightarrow> string list \<Rightarrow> string" where
  \<comment> \<open>\<^verbatim>\<open>sep.join(xs)\<close>\<close>
  "join sep [] = []"
| "join sep [x] = x"
| "join sep (x # y # ys) = x @ sep @ join sep (y # ys)"

fun cell_gt :: "cell \<Rightarrow> cell \<Rightarrow> bool option" where
  \<comment> \<open>\<^verbatim>\<open>a > b\<close> on two cells: numbers by value, texts in lexicographic order, false on
      nan against a number, TypeError on a text against a number\<close>
  "cell_gt (Num a) (Num b) = Some (b < a)"
| "cell_gt (Str a) (Str b) = Some (b < a)"
| "cell_gt NaN (Num b) = Some False"
| "cell_gt (Num a) NaN = Some False"
| "cell_gt NaN NaN = Some False"
| "cell_gt _ _ = None"

definition series_gt :: "series \<Rightarrow> series \<Rightarrow> bool list option" where
  "series_gt a b = those (map2 cell_gt a b)"

definition series_ne :: "series \<Rightarrow> cell \<Rightarrow> bool list" where
  \<comment> \<open>\<^verbatim>\<open>s != v\<close>: never raises\<close>
  "series_ne s v = map (\<lambda>c. c \<noteq> v \<or> isnull c) s"

subsection \<open>Closed forms of the column operations on columns without text\<close>

definition numeric :: "series \<Rightarrow> bool" where
  "numeric s \<longleftrightarrow> \<not> list_ex is_text s"

definition col_or :: "frame \<Rightarrow> string \<Rightarrow> cell \<Rightarrow> series" where
  \<comment> \<open>the column, or the scalar on every row when the column is absent\<close>
  "col_or df c v = (case get_col df c of Some s \<Rightarrow> s | None \<Rightarrow> replicate (nrows df) v)"

fun holds :: "cmp \<Rightarrow> rat \<Rightarrow> cell \<Rightarrow> bool" where
  "holds op k (Num x) = cmp_num op x k"
| "holds op k c = False"

fun on_num :: "(rat \<Rightarrow> rat) \<Rightarrow> cell \<Rightarrow> cell" where
  "on_num f (Num x) = Num (f x)"
| "on_num f c = c"

definition exceeds :: "series \<Rightarrow> rat \<Rightarrow> bool" where
  \<comment> \<open>some number of the column is above \<open>k\<close>, that is, its maximum is\<close>
  "exceeds s k \<longleftrightarrow> list_ex (\<lambda>x. k < x) (nums s)"

definition clip01 :: "rat \<Rightarrow> rat" where
  "clip01 x = min 1 (max 0 x)"

definition scaled :: "series \<Rightarrow> series" where
  \<comment> \<open>division of the whole column by 100 when its maximum is above 1.5\<close>
  "scaled s = (if exceeds s 1.5 then map (on_num (\<lambda>x. x / 100)) s else s)"

definition rescale :: "series \<Rightarrow> series" where
  \<comment> \<open>scaling, then clipping to [0, 1]\<close>
  "rescale s = map (on_num clip01) (scaled s)"

section \<open>The batch engine (\<^verbatim>\<open>risk_utils.py\<close>)\<close>

definition REQUIRED_COLUMNS :: "string list" where
  "REQUIRED_COLUMNS =
     [''Customer ID'', ''Credit Limit'', ''Utilisation %'', ''Avg Payment Ratio'',
      ''Min Due Paid Frequency'', ''Merchant Mix Index'', ''Cash Withdrawal %'',
      ''Recent Spend Change %'', ''DPD Bucket Next Month'']"

definition numeric_cols :: "string list" where
  "numeric_cols =
     [''Utilisation %'', ''Avg Payment Ratio'', ''Min Due Paid Frequency'',
      ''Cash Withdrawal %'', ''Recent Spend Change %'']"

definition flag_cols :: "string list" where
  "flag_cols =
     [''flag_util_spike'', ''flag_min_due_streak'', ''flag_low_pay_ratio'',
      ''flag_cash_advance'', ''flag_merchant_shift'']"

definition normalize_merchant_mix :: "series \<Rightarrow> series option" where
  "normalize_merchant_mix series =
     (if isnull_all series then Some series
      else do {
        m \<leftarrow> series_max series;
        big \<leftarrow> cell_cmp GT m 1.5;
        s \<leftarrow> (if big then series_div series 100 else Some series);
        series_clip s 0 1
      })"

definition safe_load_defaults :: "frame \<Rightarrow> frame" where
  "safe_load_defaults df =
     fold (\<lambda>c d. if \<not> has_col d c then set_scalar d c NaN else d) REQUIRED_COLUMNS df"

fun for_cols :: "(string \<Rightarrow> frame \<Rightarrow> frame option) \<Rightarrow> string list \<Rightarrow> frame \<Rightarrow> frame option" where
  \<comment> \<open>a \<^verbatim>\<open>for c in cols\<close> loop whose body updates the table\<close>
  "for_cols body [] df = Some df"
| "for_cols body (c # cs) df = do { df' \<leftarrow> body c df; for_cols body cs df' }"

definition coerce_numeric :: "(string \<Rightarrow> rat option) \<Rightarrow> string \<Rightarrow> frame \<Rightarrow> frame option" where
  \<comment> \<open>the body of the loop over \<open>numeric_cols\<close>\<close>
  "coerce_numeric num_of_text c df0 =
     do {
       let df = (if \<not> has_col df0 c then set_scalar df0 c (Num 0) else df0);
       s \<leftarrow> get_col df c;
       Some (set_col df c (fillna (Num 0) (to_numeric num_of_text s)))
     }"

definition reasons_for_row :: "(string \<rightharpoonup> cell) \<Rightarrow> cell option" where
  "reasons_for_row row =
     do {
       let reasons = [];
       f \<leftarrow> row ''flag_util_spike'';
       let reasons = (if truthy f then reasons @ [''Util Spike''] else reasons);
       f \<leftarrow> row ''flag_min_due_streak'';
       let reasons = (if truthy f then reasons @ [''Min Due Streak''] else reasons);
       f \<leftarrow> row ''flag_low_pay_ratio'';
       let reasons = (if truthy f then reasons @ [''Low Payment Ratio''] else reasons);
       f \<leftarrow> row ''flag_cash_advance'';
       let reasons = (if truthy f then reasons @ [''Cash Advance''] else reasons);
       f \<leftarrow> row ''flag_merchant_shift'';
       let reasons = (if truthy f then reasons @ [''Merchant Mix Shift''] else reasons);
       Some (Str (if reasons \<noteq> [] then join '', '' reasons else ''None''))
     }"

definition score_and_reasons :: "frame \<Rightarrow> frame option" where
  \<comment> \<open>\<open>risk_score\<close>, \<open>risk_tier\<close> and \<open>reasons\<close> from the five flag columns; the two
      engines share these lines\<close>
  "score_and_reasons df0 =
     do {
       fs \<leftarrow> those (map (get_col df0) flag_cols);
       score \<leftarrow> sum_axis1 (nrows df0) fs;
       let df = set_col df0 ''risk_score'' score;
       s \<leftarrow> get_col df ''risk_score'';
       tier \<leftarrow> pd_cut s [-1, 0, 1, 999] [''Low'', ''Medium'', ''High''];
       let df = set_col df ''risk_tier'' tier;
       r \<leftarrow> apply_rows df reasons_for_row;
       Some (set_col df ''reasons'' r)
     }"

definition target_positive :: "frame \<Rightarrow> frame option" where
  "target_positive df =
     do {
       nxt \<leftarrow> get_col df ''DPD Bucket Next Month'';
       (case get_col df ''Current DPD Bucket'' of
          None \<Rightarrow> Some (set_col df ''target_positive''
                     (astype_int (series_ne (fillna (Num 0) nxt) (Num 0))))
        | Some cur \<Rightarrow>
            if \<not> isnull_all cur then
              do {
                b \<leftarrow> series_gt (fillna (Num 0) nxt) (fillna (Num 0) cur);
                Some (set_col df ''target_positive'' (astype_int b))
              }
            else Some (set_col df ''target_positive''
                     (astype_int (series_ne (fillna (Num 0) nxt) (Num 0)))))
     }"

definition compute_flags :: "(string \<Rightarrow> rat option) \<Rightarrow> frame \<Rightarrow> string \<Rightarrow> frame option" where
  "compute_flags num_of_text df0 merchant_col =
     do {
       let df = safe_load_defaults df0;
       m \<leftarrow> get_col df merchant_col;
       mm \<leftarrow> normalize_merchant_mix m;
       let df = set_col df ''MerchantMix_norm'' mm;
       df \<leftarrow> for_cols (coerce_numeric num_of_text) numeric_cols df;
       apr \<leftarrow> get_col df ''Avg Payment Ratio'';
       m \<leftarrow> series_max apr;
       big \<leftarrow> cell_cmp GT m 1.5;
       df \<leftarrow> (if big then
               do { s \<leftarrow> series_div apr 100; Some (set_col df ''Avg Payment Ratio'' s) }
             else Some df);
       apr \<leftarrow> get_col df ''Avg Payment Ratio'';
       apr \<leftarrow> series_clip apr 0 1;
       let df = set_col df ''Avg Payment Ratio'' apr;
       util \<leftarrow> get_col df ''Utilisation %'';
       spend \<leftarrow> get_col df ''Recent Spend Change %'';
       a \<leftarrow> series_cmp GE util 80;
       b \<leftarrow> series_cmp GE spend 20;
       let df = set_col df ''flag_util_spike'' (astype_int (series_and a b));
       freq \<leftarrow> get_col df ''Min Due Paid Frequency'';
       a \<leftarrow> series_cmp GE freq 2;
       let df = set_col df ''flag_min_due_streak'' (astype_int a);
       apr \<leftarrow> get_col df ''Avg Payment Ratio'';
       a \<leftarrow> series_cmp LE apr 0.4;
       let df = set_col df ''flag_low_pay_ratio'' (astype_int a);
       cash \<leftarrow> get_col df ''Cash Withdrawal %'';
       util \<leftarrow> get_col df ''Utilisation %'';
       a \<leftarrow> series_cmp GT cash 0;
       b \<leftarrow> series_cmp GT util 70;
       let df = set_col df ''flag_cash_advance'' (astype_int (series_and a b));
       mm \<leftarrow> get_col df ''MerchantMix_norm'';
       a \<leftarrow> series_cmp LE mm 0.35;
       let df = set_col df ''flag_merchant_shift'' (astype_int a);
       df \<leftarrow> score_and_reasons df;
       target_positive df
     }"

section \<open>The serving engine (\<^verbatim>\<open>server.py\<close>)\<close>

definition server_normalize_merchant_mix ::
  "(string \<Rightarrow> rat option option) \<Rightarrow> series \<Rightarrow> series option" where
  "server_normalize_merchant_mix float_of_text series =
     (if isnull_all series then Some series
      else do {
        s \<leftarrow> astype_float float_of_text series;
        m \<leftarrow> series_max s;
        big \<leftarrow> cell_cmp GT m 1.5;
        s \<leftarrow> (if big then series_div s 100 else Some s);
        series_clip s 0 1
      })"

definition server_coerce_numeric :: "(string \<Rightarrow> rat option) \<Rightarrow> string \<Rightarrow> frame \<Rightarrow> frame option" where
  \<comment> \<open>the body of the server's loop over \<open>numeric_cols\<close>\<close>
  "server_coerce_numeric num_of_text c df0 =
     do {
       let df = (if \<not> has_col df0 c then set_scalar df0 c NaN else df0);
       s \<leftarrow> get_col df c;
       Some (set_col df c (to_numeric num_of_text s))
     }"

definition server_compute_flags ::
  "(string \<Rightarrow> rat option) \<Rightarrow> (string \<Rightarrow> rat option option) \<Rightarrow> frame \<Rightarrow> frame option" where
  "server_compute_flags num_of_text float_of_text df0 =
     do {
       df \<leftarrow> for_cols (server_coerce_numeric num_of_text) numeric_cols df0;
       df \<leftarrow> (if has_col df ''Merchant Mix Index'' then
               do {
                 m \<leftarrow> get_col df ''Merchant Mix Index'';
                 mm \<leftarrow> server_normalize_merchant_mix float_of_text m;
                 Some (set_col df ''MerchantMix_norm'' mm)
               }
             else Some (set_scalar df ''MerchantMix_norm'' NaN));
       apr \<leftarrow> get_col df ''Avg Payment Ratio'';
       m \<leftarrow> series_max apr;
       big \<leftarrow> cell_cmp GT m 1.5;
       df \<leftarrow> (if big then
               do { s \<leftarrow> series_div apr 100; Some (set_col df ''Avg Payment Ratio'' s) }
             else Some df);
       apr \<leftarrow> get_col df ''Avg Payment Ratio'';
       apr \<leftarrow> series_clip apr 0 1;
       let df = set_col df ''Avg Payment Ratio'' (fillna (Num 0) apr);
       util \<leftarrow> get_col df ''Utilisation %'';
       spend \<leftarrow> get_col df ''Recent Spend Change %'';
       a \<leftarrow> series_cmp GE (fillna (Num 0) util) 80;
       b \<leftarrow> series_cmp GE (fillna (Num 0) spend) 20;
       let df = set_col df ''flag_util_spike'' (astype_int (series_and a b));
       freq \<leftarrow> get_col df ''Min Due Paid Frequency'';
       a \<leftarrow> series_cmp GE (fillna (Num 0) freq) 2;
       let df = set_col df ''flag_min_due_streak'' (astype_int a);
       apr \<leftarrow> get_col df ''Avg Payment Ratio'';
       a \<leftarrow> series_cmp LE (fillna (Num 1) apr) 0.4;
       let df = set_col df ''flag_low_pay_ratio'' (astype_int a);
       cash \<leftarrow> get_col df ''Cash Withdrawal %'';
       util \<leftarrow> get_col df ''Utilisation %'';
       a \<leftarrow> series_cmp GT (fillna (Num 0) cash) 0;
       b \<leftarrow> series_cmp GT (fillna (Num 0) util) 70;
       let df = set_col df ''flag_cash_advance'' (astype_int (series_and a b));
       mm \<leftarrow> get_col df ''MerchantMix_norm'';
       a \<leftarrow> series_cmp LE (fillna (Num 1) mm) 0.35;
       let df = set_col df ''flag_merchant_shift'' (astype_int a);
       score_and_reasons df
     }"

section \<open>Notions the properties are stated with\<close>

definition count_true :: "cell list \<Rightarrow> nat" where
  "count_true fs = length (filter truthy fs)"

definition flags_at :: "frame \<Rightarrow> nat \<Rightarrow> cell list option" where
  "flags_at df i = those (map (row_at df i) flag_cols)"

definition flag_labels :: "string list" where
  "flag_labels =
     [''Util Spike'', ''Min Due Streak'', ''Low Payment Ratio'', ''Cash Advance'',
      ''Merchant Mix Shift'']"

definition reasons_text :: "cell list \<Rightarrow> string" where
  "reasons_text fs =
     (let labels = map snd (filter (\<lambda>fl. truthy (fst fl)) (zip fs flag_labels))
      in if labels = [] then ''None'' else join '', '' labels)"

text \<open>
  The normalisation of the merchant mix as the specification words it: a column that is
  entirely missing passes through unchanged; otherwise the whole column is divided by 100
  when its maximum observed value exceeds 1.5, and the result is clipped to [0, 1].
\<close>

definition MerchantMixNorm :: "series \<Rightarrow> series" where
  "MerchantMixNorm col =
     (if \<forall>c\<in>set col. c = NaN then col
      else map (on_num clip01)
             (if 1.5 < Max (set (nums col)) then map (on_num (\<lambda>x. x / 100)) col else col))"

subsection \<open>The columns of the result in closed form\<close>

definition bnum :: "(string \<Rightarrow> rat option) \<Rightarrow> frame \<Rightarrow> string \<Rightarrow> series" where
  "bnum p df c = fillna (Num 0) (to_numeric p (col_or df c NaN))"

definition util_spike :: "series \<Rightarrow> series \<Rightarrow> series" where
  "util_spike util spend = astype_int (series_and (map (holds GE 80) util) (map (holds GE 20) spend))"

definition min_due_streak :: "series \<Rightarrow> series" where
  "min_due_streak freq = astype_int (map (holds GE 2) freq)"

definition low_pay_ratio :: "series \<Rightarrow> series" where
  "low_pay_ratio apr = astype_int (map (holds LE 0.4) apr)"

definition cash_advance :: "series \<Rightarrow> series \<Rightarrow> series" where
  "cash_advance cash util = astype_int (series_and (map (holds GT 0) cash) (map (holds GT 70) util))"

definition merchant_shift :: "series \<Rightarrow> series" where
  "merchant_shift mm = astype_int (map (holds LE 0.35) mm)"

definition batch_cols :: "(string \<Rightarrow> rat option) \<Rightarrow> frame \<Rightarrow> string \<rightharpoonup> series" where
  "batch_cols p df =
     (get_col (safe_load_defaults df))
       (''MerchantMix_norm'' \<mapsto> rescale (col_or df ''Merchant Mix Index'' NaN),
        ''Utilisation %'' \<mapsto> bnum p df ''Utilisation %'',
        ''Min Due Paid Frequency'' \<mapsto> bnum p df ''Min Due Paid Frequency'',
        ''Cash Withdrawal %'' \<mapsto> bnum p df ''Cash Withdrawal %'',
        ''Recent Spend Change %'' \<mapsto> bnum p df ''Recent Spend Change %'',
        ''Avg Payment Ratio'' \<mapsto> rescale (bnum p df ''Avg Payment Ratio''),
        ''flag_util_spike'' \<mapsto>
           util_spike (bnum p df ''Utilisation %'') (bnum p df ''Recent Spend Change %''),
        ''flag_min_due_streak'' \<mapsto> min_due_streak (bnum p df ''Min Due Paid Frequency''),
        ''flag_low_pay_ratio'' \<mapsto> low_pay_ratio (rescale (bnum p df ''Avg Payment Ratio'')),
        ''flag_cash_advance'' \<mapsto>
           cash_advance (bnum p df ''Cash Withdrawal %'') (bnum p df ''Utilisation %''),
        ''flag_merchant_shift'' \<mapsto> merchant_shift (rescale (col_or df ''Merchant Mix Index'' NaN)))"

definition snum :: "(string \<Rightarrow> rat option) \<Rightarrow> frame \<Rightarrow> string \<Rightarrow> series" where
  "snum p df c = to_numeric p (col_or df c NaN)"

definition server_mm :: "(string \<Rightarrow> rat option option) \<Rightarrow> frame \<Rightarrow> series option" where
  "server_mm f df =
     (case get_col df ''Merchant Mix Index'' of
        None \<Rightarrow> Some (replicate (nrows df) NaN)
      | Some m \<Rightarrow> server_normalize_merchant_mix f m)"

definition server_cols ::
  "(string \<Rightarrow> rat option) \<Rightarrow> frame \<Rightarrow> series \<Rightarrow> string \<rightharpoonup> series" where
  "server_cols p df mm =
     (get_col df)
       (''Utilisation %'' \<mapsto> snum p df ''Utilisation %'',
        ''Min Due Paid Frequency'' \<mapsto> snum p df ''Min Due Paid Frequency'',
        ''Cash Withdrawal %'' \<mapsto> snum p df ''Cash Withdrawal %'',
        ''Recent Spend Change %'' \<mapsto> snum p df ''Recent Spend Change %'',
        ''MerchantMix_norm'' \<mapsto> mm,
        ''Avg Payment Ratio'' \<mapsto> fillna (Num 0) (rescale (snum p df ''Avg Payment Ratio'')),
        ''flag_util_spike'' \<mapsto>
           util_spike (fillna (Num 0) (snum p df ''Utilisation %''))
             (fillna (Num 0) (snum p df ''Recent Spend Change %'')),
        ''flag_min_due_streak'' \<mapsto>
           min_due_streak (fillna (Num 0) (snum p df ''Min Due Paid Frequency'')),
        ''flag_low_pay_ratio'' \<mapsto>
           low_pay_ratio (fillna (Num 1)
             (fillna (Num 0) (rescale (snum p df ''Avg Payment Ratio'')))),
        ''flag_cash_advance'' \<mapsto>
           cash_advance (fillna (Num 0) (snum p df ''Cash Withdrawal %''))
             (fillna (Num 0) (snum p df ''Utilisation %'')),
        ''flag_merchant_shift'' \<mapsto> merchant_shift (fillna (Num 1) mm))"

definition bool_col :: "frame \<Rightarrow> string \<Rightarrow> bool" where
  "bool_col df c \<longleftrightarrow> (\<exists>b. get_col df c = Some (astype_int b) \<and> length b = nrows df)"

definition scored :: "frame \<Rightarrow> nat \<Rightarrow> bool" where
  \<comment> \<open>row \<open>i\<close> of the table carries five 0/1 flags, their count as score, the tier of
      the count and the reasons of the flags\<close>
  "scored out i \<longleftrightarrow>
     (\<exists>fs. flags_at out i = Some fs \<and> length fs = 5
          \<and> (\<forall>x\<in>set fs. x = Num 0 \<or> x = Num 1)
          \<and> row_at out i ''risk_score'' = Some (Num (of_nat (count_true fs)))
          \<and> row_at out i ''risk_tier'' =
               Some (cut_num [-1, 0, 1, 999] [''Low'', ''Medium'', ''High''] (of_nat (count_true fs)))
          \<and> row_at out i ''reasons'' = Some (Str (reasons_text fs)))"

definition dpd_comparable :: "frame \<Rightarrow> bool" where
  \<comment> \<open>the comparison of the two DPD columns in \<open>target_positive\<close> does not raise\<close>
  "dpd_comparable df \<longleftrightarrow>
     (case get_col df ''Current DPD Bucket'' of
        None \<Rightarrow> True
      | Some cur \<Rightarrow> isnull_all cur
          \<or> series_gt (fillna (Num 0) (col_or df ''DPD Bucket Next Month'' NaN)) (fillna (Num 0) cur) \<noteq> None)"

definition no_text :: "string \<Rightarrow> rat option" where
  "no_text t = None"

definition no_float :: "string \<Rightarrow> rat option option" where
  "no_float t = None"

definition two_customers :: frame where
  "two_customers =
     \<lparr>nrows = 2,
      columns =
        [(''Customer ID'', [Str ''C1'', Str ''C2'']),
         (''Utilisation %'', [Num 85, Num 10]),
         (''Recent Spend Change %'', [Num 25, NaN]),
         (''Avg Payment Ratio'', [Num 90, Num 30]),
         (''Merchant Mix Index'', [Num 0.9, Num 0.2])]\<rparr>"

definition batch_flags_row :: "(string \<Rightarrow> rat option) \<Rightarrow> frame \<Rightarrow> nat \<Rightarrow> cell list" where
  "batch_flags_row p df i =
     [util_spike (bnum p df ''Utilisation %'') (bnum p df ''Recent Spend Change %'') ! i,
      min_due_streak (bnum p df ''Min Due Paid Frequency'') ! i,
      low_pay_ratio (rescale (bnum p df ''Avg Payment Ratio'')) ! i,
      cash_advance (bnum p df ''Cash Withdrawal %'') (bnum p df ''Utilisation %'') ! i,
      merchant_shift (rescale (col_or df ''Merchant Mix Index'' NaN)) ! i]"

definition server_flags_row :: "(string \<Rightarrow> rat option) \<Rightarrow> frame \<Rightarrow> series \<Rightarrow> nat \<Rightarrow> cell list" where
  "server_flags_row p df mm i =
     [util_spike (fillna (Num 0) (snum p df ''Utilisation %''))
             (fillna (Num 0) (snum p df ''Recent Spend Change %'')) ! i,
      min_due_streak (fillna (Num 0) (snum p df ''Min Due Paid Frequency'')) ! i,
      low_pay_ratio (fillna (Num 1)
             (fillna (Num 0) (rescale (snum p df ''Avg Payment Ratio'')))) ! i,
      cash_advance (fillna (Num 0) (snum p df ''Cash Withdrawal %''))
             (fillna (Num 0) (snum p df ''Utilisation %'')) ! i,
      merchant_shift (fillna (Num 1) mm) ! i]"

definition tiered :: "frame \<Rightarrow> nat \<Rightarrow> bool" where
  \<comment> \<open>the tier of row \<open>i\<close> is the bin of its score: Low exactly for score 0, Medium exactly
      for score 1, High exactly for a score of 2 or more\<close>
  "tiered out i \<longleftrightarrow>
     (\<exists>k t. row_at out i ''risk_score'' = Some (Num (of_nat k))
        \<and> row_at out i ''risk_tier'' = Some (Str t)
        \<and> Str t = cut_num [-1, 0, 1, 999] [''Low'', ''Medium'', ''High''] (of_nat k)
        \<and> (t = ''Low'' \<longleftrightarrow> k = 0) \<and> (t = ''Medium'' \<longleftrightarrow> k = 1) \<and> (t = ''High'' \<longleftrightarrow> 2 \<le> k))"

definition out_col :: "frame option \<Rightarrow> string \<Rightarrow> series option" where
  \<comment> \<open>a column of the table a run returns; nothing when the run raises\<close>
  "out_col r c = (case r of None \<Rightarrow> None | Some d \<Rightarrow> get_col d c)"

fun unit_cell :: "cell \<Rightarrow> bool" where
  "unit_cell (Num x) \<longleftrightarrow> 0 \<le> x \<and> x \<le> 1"
| "unit_cell NaN \<longleftrightarrow> True"
| "unit_cell (Str t) \<longleftrightarrow> False"

definition missing_ratio :: frame where
  "missing_ratio =
     \<lparr>nrows = 1,
      columns = [(''Customer ID'', [Str ''C1'']), (''Avg Payment Ratio'', [NaN])]\<rparr>"

definition no_merchant_mix :: frame where
  "no_merchant_mix =
     \<lparr>nrows = 1,
      columns = [(''Customer ID'', [Str ''C1'']), (''Utilisation %'', [Num 85])]\<rparr>"

fun is_num :: "cell \<Rightarrow> bool" where
  "is_num (Num x) = True"
| "is_num c = False"

definition derived_cols :: "string list" where
  \<comment> \<open>the names of the columns the engines add\<close>
  "derived_cols =
     ''MerchantMix_norm'' # flag_cols @ [''risk_score'', ''risk_tier'', ''reasons'', ''target_positive'']"

definition text_merchant_mix :: frame where
  "text_merchant_mix =
     \<lparr>nrows = 1,
      columns = [(''Customer ID'', [Str ''C1'']), (''Merchant Mix Index'', [Str ''abc''])]\<rparr>"

definition drop_cols :: "frame \<Rightarrow> string list \<Rightarrow> frame" where
  \<comment> \<open>the table without the columns of the given names\<close>
  "drop_cols df cs = df\<lparr>columns := filter (\<lambda>x. fst x \<notin> set cs) (columns df)\<rparr>"

definition input_cols :: "string list" where
  \<comment> \<open>the columns the engines read\<close>
  "input_cols = numeric_cols @ [''Merchant Mix Index'', ''DPD Bucket Next Month'', ''Current DPD Bucket'']"

definition append_rows :: "frame \<Rightarrow> frame \<Rightarrow> frame" where
  \<comment> \<open>the table followed by the records of a second table, which are read in the columns
      of the first: a field they lack is missing\<close>
  "append_rows df extra =
     \<lparr>nrows = nrows df + nrows extra,
      columns = map (\<lambda>x. (fst x, snd x @ col_or extra (fst x) NaN)) (columns df)\<rparr>"

definition lone_ratio :: frame where
  "lone_ratio = \<lparr>nrows = 1, columns = [(''Avg Payment Ratio'', [Num 1])]\<rparr>"

definition late_ratio :: frame where
  "late_ratio = \<lparr>nrows = 1, columns = [(''Avg Payment Ratio'', [Num 50])]\<rparr>"

definition third_customer :: frame where
  "third_customer =
     \<lparr>nrows = 1,
      columns =
        [(''Customer ID'', [Str ''C3'']),
         (''Utilisation %'', [Num 90]),
         (''Recent Spend Change %'', [Num 30]),
         (''Avg Payment Ratio'', [Num 50]),
         (''Merchant Mix Index'', [Num 0.5])]\<rparr>"

definition appended :: "frame \<Rightarrow> frame \<Rightarrow> string \<Rightarrow> series" where
  \<comment> \<open>the cells that \<open>append_rows\<close> adds to a column, present or synthesised\<close>
  "appended df extra c =
     (case get_col df c of None \<Rightarrow> replicate (nrows extra) NaN | Some s \<Rightarrow> col_or extra c NaN)"

definition flag_cell :: "bool \<Rightarrow> cell" where
  "flag_cell b = Num (of_bool b)"

definition apr_big :: "(string \<Rightarrow> rat option) \<Rightarrow> frame \<Rightarrow> bool" where
  \<comment> \<open>the batch engine finds the maximum of Avg Payment Ratio above 1.5\<close>
  "apr_big p df \<longleftrightarrow> exceeds (bnum p df ''Avg Payment Ratio'') 1.5"

definition mix_big :: "frame \<Rightarrow> bool" where
  \<comment> \<open>the batch engine finds the maximum of Merchant Mix Index above 1.5\<close>
  "mix_big df \<longleftrightarrow> exceeds (col_or df ''Merchant Mix Index'' NaN) 1.5"

definition server_apr_big :: "(string \<Rightarrow> rat option) \<Rightarrow> frame \<Rightarrow> bool" where
  \<comment> \<open>the serving engine finds the maximum of Avg Payment Ratio above 1.5\<close>
  "server_apr_big p df \<longleftrightarrow> exceeds (snum p df ''Avg Payment Ratio'') 1.5"

definition server_mix_big :: "(string \<Rightarrow> rat option option) \<Rightarrow> frame \<Rightarrow> bool" where
  \<comment> \<open>the serving engine finds the maximum of Merchant Mix Index, as floats, above 1.5\<close>
  "server_mix_big f df \<longleftrightarrow>
     (case astype_float f (col_or df ''Merchant Mix Index'' NaN) of
        None \<Rightarrow> False | Some m \<Rightarrow> exceeds m 1.5)"

section \<open>Tables: reading and writing columns\<close>

lemma get_col_set_col [simp]: "get_col (set_col df c s) c' = (if c' = c then Some s else get_col df c')"
  by (simp add: get_col_def set_col_def update_conv')

lemma set_col_set_col [simp]: "set_col (set_col df c s) c s' = set_col df c s'"
  by (simp add: set_col_def)

lemma nrows_set_col [simp]: "nrows (set_col df c s) = nrows df"
  by (simp add: set_col_def)

lemma get_col_set_scalar [simp]:
  "get_col (set_scalar df c v) c' = (if c' = c then Some (replicate (nrows df) v) else get_col df c')"
  by (simp add: set_scalar_def)

lemma nrows_set_scalar [simp]: "nrows (set_scalar df c v) = nrows df"
  by (simp add: set_scalar_def)

lemma has_col_iff: "has_col df c \<longleftrightarrow> get_col df c \<noteq> None"
  by (simp add: has_col_def get_col_def map_of_eq_None_iff)

lemma wf_set_col: "wf df \<Longrightarrow> length s = nrows df \<Longrightarrow> wf (set_col df c s)"
proof -
  assume a: "wf df" "length s = nrows df"
  have "set (AList.update c s al) \<subseteq> insert (c, s) (set al)" for al
    by (induct al) auto
  then have "set (AList.update c s (columns df)) \<subseteq> insert (c, s) (set (columns df))" .
  have True
    by simp
  from a \<open>set (AList.update c s (columns df)) \<subseteq> insert (c, s) (set (columns df))\<close> show ?thesis
    unfolding wf_def set_col_def by (auto simp: list_all_iff distinct_update)
qed

lemma wf_set_scalar: "wf df \<Longrightarrow> wf (set_scalar df c v)"
  by (simp add: set_scalar_def wf_set_col)

lemma wf_length: "wf df \<Longrightarrow> get_col df c = Some s \<Longrightarrow> length s = nrows df"
  unfolding wf_def get_col_def by (auto simp: list_all_iff dest!: map_of_SomeD)

lemma those_map_Some: "those (map f xs) = Some ys \<longleftrightarrow> list_all2 (\<lambda>x y. f x = Some y) xs ys"
proof (induction xs arbitrary: ys)
  case Nil then show ?case by auto
next
  case (Cons x xs) then show ?case
    by (cases ys) (auto split: option.splits)
qed

lemma those_map_total: "(\<And>x. x \<in> set xs \<Longrightarrow> f x = Some (g x)) \<Longrightarrow> those (map f xs) = Some (map g xs)"
  by (induction xs) auto

lemma those_map_None: "those (map f xs) = None \<longleftrightarrow> (\<exists>x\<in>set xs. f x = None)"
  by (induction xs) (auto split: option.splits)


lemma numeric_simps [simp]:
  "numeric []" "numeric (c # s) \<longleftrightarrow> \<not> is_text c \<and> numeric s"
  "numeric (replicate n c) \<longleftrightarrow> n = 0 \<or> \<not> is_text c"
  "numeric (a @ b) \<longleftrightarrow> numeric a \<and> numeric b"
  by (auto simp: numeric_def list_ex_iff)

lemma numeric_iff: "numeric s \<longleftrightarrow> (\<forall>c\<in>set s. \<not> is_text c)"
  by (simp add: numeric_def list_ex_iff)

lemma is_text_coerce [simp]: "\<not> is_text (coerce_cell p c)"
  by (cases c) (auto split: option.splits)

lemma numeric_to_numeric [simp]: "numeric (to_numeric p s)"
  by (simp add: numeric_iff to_numeric_def)

lemma numeric_fillna [simp]: "numeric (fillna (Num x) s) = numeric s"
proof (induction s)
  case (Cons c s) then show ?case by (cases c) (auto simp: fillna_def)
qed (simp add: fillna_def)

lemma numeric_on_num [simp]: "numeric (map (on_num f) s) = numeric s"
proof (induction s)
  case (Cons c s) then show ?case by (cases c) auto
qed simp

lemma numeric_scaled [simp]: "numeric (scaled s) = numeric s"
  by (simp add: scaled_def)

lemma numeric_rescale [simp]: "numeric (rescale s) = numeric s"
  by (simp add: rescale_def)

lemma numeric_astype_int [simp]: "numeric (astype_int b)"
  by (simp add: numeric_iff astype_int_def)

lemma nums_set: "x \<in> set (nums s) \<longleftrightarrow> Num x \<in> set s"
  by (induction s rule: nums.induct) auto

lemma exceeds_iff: "exceeds s k \<longleftrightarrow> (\<exists>x. Num x \<in> set s \<and> k < x)"
  by (auto simp: exceeds_def list_ex_iff nums_set)

lemma fold_max_gt: "k < fold max xs (x::rat) \<longleftrightarrow> k < x \<or> (\<exists>y\<in>set xs. k < y)"
  by (induction xs arbitrary: x) (auto simp: less_max_iff_disj)

lemma series_max_gt:
  "(do { m \<leftarrow> series_max s; cell_cmp GT m k }) = (if numeric s then Some (exceeds s k) else None)"
  by (auto simp: series_max_def numeric_def exceeds_def fold_max_gt list_ex_iff split: list.splits)

lemma those_text_None:
  assumes "\<not> numeric s" and "\<And>t. f (Str t) = None"
  shows "those (map f s) = None"
proof -
  from assms(1) obtain c where c: "c \<in> set s" "is_text c" by (auto simp: numeric_iff)
  from c(2) obtain t where "c = Str t" by (cases c) auto
  with c assms(2) have "\<exists>c\<in>set s. f c = None" by auto
  then show ?thesis by (simp add: those_map_None)
qed

lemma series_cmp_numeric: "series_cmp op s k = (if numeric s then Some (map (holds op k) s) else None)"
proof (cases "numeric s")
  case True
  have "cell_cmp op c k = Some (holds op k c)" if "c \<in> set s" for c
    by (cases c) (use that True in \<open>auto simp: numeric_iff\<close>)
  then show ?thesis using True by (simp add: series_cmp_def those_map_total)
next
  case False
  then show ?thesis by (simp add: series_cmp_def those_text_None)
qed

lemma series_div_numeric: "series_div s k = (if numeric s then Some (map (on_num (\<lambda>x. x / k)) s) else None)"
proof (cases "numeric s")
  case True
  have "cell_div k c = Some (on_num (\<lambda>x. x / k) c)" if "c \<in> set s" for c
    by (cases c) (use that True in \<open>auto simp: numeric_iff\<close>)
  then show ?thesis using True by (simp add: series_div_def those_map_total)
next
  case False
  then show ?thesis by (simp add: series_div_def those_text_None)
qed

lemma series_clip_numeric:
  "series_clip s 0 1 = (if numeric s then Some (map (on_num clip01) s) else None)"
proof (cases "numeric s")
  case True
  have "cell_clip 0 1 c = Some (on_num clip01 c)" if "c \<in> set s" for c
    by (cases c) (use that True in \<open>auto simp: numeric_iff clip01_def\<close>)
  then show ?thesis using True by (simp add: series_clip_def those_map_total)
next
  case False
  then show ?thesis by (simp add: series_clip_def those_text_None)
qed

lemma bind_assoc_opt: "(do { m \<leftarrow> a; b \<leftarrow> f m; g b }) = (do { b \<leftarrow> (do { m \<leftarrow> a; f m }); g b })"
  for a :: "'a option"
  by (cases a) auto

text \<open>the scaling steps shared by both normalisations\<close>
lemma scale_steps:
  "(do { m \<leftarrow> series_max s; big \<leftarrow> cell_cmp GT m k; g big })
   = (if numeric s then g (exceeds s k) else None)"
  unfolding bind_assoc_opt series_max_gt by simp

lemma scaled_steps:
  "(do { m \<leftarrow> series_max s; big \<leftarrow> cell_cmp GT m 1.5;
         s' \<leftarrow> (if big then series_div s 100 else Some s); g s' })
   = (if numeric s then g (scaled s) else None)"
  unfolding scale_steps by (simp add: series_div_numeric scaled_def)

lemma scaled_steps_at:
  "k = 1.5 \<Longrightarrow>
   (do { m \<leftarrow> series_max s; big \<leftarrow> cell_cmp GT m k;
         s' \<leftarrow> (if big then series_div s 100 else Some s); g s' })
   = (if numeric s then g (scaled s) else None)"
  by (simp only: scaled_steps)

lemma scaled_frame_steps:
  "k = 1.5 \<Longrightarrow> get_col df c = Some s \<Longrightarrow>
   (do { m \<leftarrow> series_max s; big \<leftarrow> cell_cmp GT m k;
         d \<leftarrow> (if big then do { x \<leftarrow> series_div s 100; Some (set_col df c x) } else Some df);
         g d })
   = (if numeric s then g (set_col df c (scaled s)) else None)"
proof -
  assume k: "k = 1.5" and c: "get_col df c = Some s"
  have same: "set_col df c s = df"
  proof -
    have "AList.update c s al = al" if "map_of al c = Some s" for al
      using that by (induction al) (auto split: if_splits)
    with c show ?thesis by (simp add: set_col_def get_col_def)
  qed
  show ?thesis
    unfolding k scale_steps
    by (auto simp: series_div_numeric scaled_def same)
qed

lemma series_clip_scaled:
  "series_clip (scaled s) 0 1 = (if numeric s then Some (rescale s) else None)"
  by (simp add: series_clip_numeric rescale_def)

lemma normalize_merchant_mix_numeric:
  "normalize_merchant_mix s =
     (if isnull_all s then Some s else if numeric s then Some (rescale s) else None)"
  unfolding normalize_merchant_mix_def scaled_steps
  by (simp add: series_clip_scaled)

lemma those_eq_Some: "those xs = Some ys \<longleftrightarrow> xs = map Some ys"
proof (induction xs arbitrary: ys)
  case Nil then show ?case by auto
next
  case (Cons x xs) then show ?case
    by (cases ys) (auto split: option.splits)
qed

lemma col_or_Some [simp]: "get_col df c = Some s \<Longrightarrow> col_or df c v = s"
  by (simp add: col_or_def)

lemma length_col_or: "wf df \<Longrightarrow> length (col_or df c v) = nrows df"
  by (auto simp: col_or_def wf_length split: option.splits)

subsection \<open>safe_load_defaults\<close>

lemma fold_defaults:
  "get_col (fold (\<lambda>c d. if \<not> has_col d c then set_scalar d c v else d) cs df) c =
     (case get_col df c of Some s \<Rightarrow> Some s
      | None \<Rightarrow> if c \<in> set cs then Some (replicate (nrows df) v) else None)
   \<and> nrows (fold (\<lambda>c d. if \<not> has_col d c then set_scalar d c v else d) cs df) = nrows df
   \<and> (wf df \<longrightarrow> wf (fold (\<lambda>c d. if \<not> has_col d c then set_scalar d c v else d) cs df))"
proof (induction cs arbitrary: df)
  case Nil
  then show ?case by (simp split: option.splits)
next
  case (Cons a cs)
  define d where "d = (if \<not> has_col df a then set_scalar df a v else df)"
  have n: "nrows d = nrows df" by (simp add: d_def)
  have w: "wf df \<Longrightarrow> wf d" by (simp add: d_def wf_set_scalar)
  have g: "get_col d c =
     (case get_col df c of Some s \<Rightarrow> Some s
      | None \<Rightarrow> if c = a then Some (replicate (nrows df) v) else None)"
    by (auto simp: d_def has_col_iff split: option.splits)
  have f: "fold (\<lambda>c d. if \<not> has_col d c then set_scalar d c v else d) (a # cs) df
         = fold (\<lambda>c d. if \<not> has_col d c then set_scalar d c v else d) cs d"
    by (simp add: d_def)
  show ?case
    unfolding f using Cons.IH [of d] n w g
    by (auto split: option.splits)
qed

lemma get_col_safe_load_defaults:
  "get_col (safe_load_defaults df) c =
     (case get_col df c of Some s \<Rightarrow> Some s
      | None \<Rightarrow> if c \<in> set REQUIRED_COLUMNS then Some (replicate (nrows df) NaN) else None)"
  unfolding safe_load_defaults_def using fold_defaults by blast

lemma nrows_safe_load_defaults [simp]: "nrows (safe_load_defaults df) = nrows df"
  unfolding safe_load_defaults_def using fold_defaults by blast

lemma wf_safe_load_defaults: "wf df \<Longrightarrow> wf (safe_load_defaults df)"
  unfolding safe_load_defaults_def using fold_defaults by blast

lemma get_col_sld_required:
  "c \<in> set REQUIRED_COLUMNS \<Longrightarrow> get_col (safe_load_defaults df) c = Some (col_or df c NaN)"
  by (simp add: get_col_safe_load_defaults col_or_def split: option.splits)

subsection \<open>The loops over the numeric columns\<close>

lemma for_cols_coerce_numeric:
  "distinct cs \<Longrightarrow>
   \<exists>df'. for_cols (coerce_numeric p) cs df = Some df' \<and> nrows df' = nrows df
     \<and> (wf df \<longrightarrow> wf df')
     \<and> (\<forall>c. get_col df' c =
          (if c \<in> set cs then Some (fillna (Num 0) (to_numeric p (col_or df c (Num 0))))
           else get_col df c))"
proof (induction cs arbitrary: df)
  case Nil
  then show ?case by simp
next
  case (Cons a cs)
  define d where "d = (if \<not> has_col df a then set_scalar df a (Num 0) else df)"
  define d1 where "d1 = set_col d a (fillna (Num 0) (to_numeric p (col_or df a (Num 0))))"
  have g: "get_col d a = Some (col_or df a (Num 0))"
    by (auto simp: d_def has_col_iff col_or_def)
  then have step: "coerce_numeric p a df = Some d1"
    by (simp add: coerce_numeric_def d_def d1_def Let_def)
  have n: "nrows d1 = nrows df" by (simp add: d1_def d_def)
  have w: "wf df \<Longrightarrow> wf d1"
    unfolding d1_def
    by (rule wf_set_col) (auto simp: d_def wf_set_scalar fillna_def to_numeric_def length_col_or)
  have o: "get_col d1 c = get_col df c" if "c \<noteq> a" for c
    using that by (simp add: d1_def d_def)
  then have co: "col_or d1 c v = col_or df c v" if "c \<noteq> a" for c v
    using that by (simp add: col_or_def n split: option.splits)
  from Cons.prems have "distinct cs" "a \<notin> set cs" by auto
  from Cons.IH [OF this(1), of d1] obtain df' where
    df': "for_cols (coerce_numeric p) cs d1 = Some df'" "nrows df' = nrows d1" "wf d1 \<longrightarrow> wf df'"
      "\<And>c. get_col df' c =
          (if c \<in> set cs then Some (fillna (Num 0) (to_numeric p (col_or d1 c (Num 0))))
           else get_col d1 c)"
    by blast
  have "get_col df' c =
          (if c \<in> set (a # cs) then Some (fillna (Num 0) (to_numeric p (col_or df c (Num 0))))
           else get_col df c)" for c
  proof (cases "c = a")
    case True
    with \<open>a \<notin> set cs\<close> show ?thesis by (simp add: df'(4) d1_def)
  next
    case False
    then show ?thesis by (simp add: df'(4) co o)
  qed
  with df' step n w show ?case by auto
qed

lemma for_cols_server_coerce_numeric:
  "distinct cs \<Longrightarrow>
   \<exists>df'. for_cols (server_coerce_numeric p) cs df = Some df' \<and> nrows df' = nrows df
     \<and> (wf df \<longrightarrow> wf df')
     \<and> (\<forall>c. get_col df' c =
          (if c \<in> set cs then Some (to_numeric p (col_or df c NaN)) else get_col df c))"
proof (induction cs arbitrary: df)
  case Nil
  then show ?case by simp
next
  case (Cons a cs)
  define d where "d = (if \<not> has_col df a then set_scalar df a NaN else df)"
  define d1 where "d1 = set_col d a (to_numeric p (col_or df a NaN))"
  have g: "get_col d a = Some (col_or df a NaN)"
    by (auto simp: d_def has_col_iff col_or_def)
  then have step: "server_coerce_numeric p a df = Some d1"
    by (simp add: server_coerce_numeric_def d_def d1_def Let_def)
  have n: "nrows d1 = nrows df" by (simp add: d1_def d_def)
  have w: "wf df \<Longrightarrow> wf d1"
    unfolding d1_def
    by (rule wf_set_col) (auto simp: d_def wf_set_scalar to_numeric_def length_col_or)
  have o: "get_col d1 c = get_col df c" if "c \<noteq> a" for c
    using that by (simp add: d1_def d_def)
  then have co: "col_or d1 c v = col_or df c v" if "c \<noteq> a" for c v
    using that by (simp add: col_or_def n split: option.splits)
  from Cons.prems have "distinct cs" "a \<notin> set cs" by auto
  from Cons.IH [OF this(1), of d1] obtain df' where
    df': "for_cols (server_coerce_numeric p) cs d1 = Some df'" "nrows df' = nrows d1" "wf d1 \<longrightarrow> wf df'"
      "\<And>c. get_col df' c =
          (if c \<in> set cs then Some (to_numeric p (col_or d1 c NaN)) else get_col d1 c)"
    by blast
  have "get_col df' c =
          (if c \<in> set (a # cs) then Some (to_numeric p (col_or df c NaN)) else get_col df c)" for c
  proof (cases "c = a")
    case True
    with \<open>a \<notin> set cs\<close> show ?thesis by (simp add: df'(4) d1_def)
  next
    case False
    then show ?thesis by (simp add: df'(4) co o)
  qed
  with df' step n w show ?case by auto
qed

section \<open>Normalisation of the merchant mix\<close>

lemma isnull_all_iff: "isnull_all s \<longleftrightarrow> (\<forall>c\<in>set s. c = NaN)"
proof -
  have "isnull c \<longleftrightarrow> c = NaN" for c by (cases c) auto
  then show ?thesis by (simp add: isnull_all_def list_all_iff)
qed

lemma map_on_num_null: "\<forall>c\<in>set s. c = NaN \<Longrightarrow> map (on_num f) s = s"
  by (induction s) auto

lemma rescale_null: "isnull_all s \<Longrightarrow> rescale s = s"
  by (simp add: rescale_def scaled_def isnull_all_iff map_on_num_null)

lemma nums_nonempty: "numeric s \<Longrightarrow> \<not> isnull_all s \<Longrightarrow> nums s \<noteq> []"
proof -
  assume a: "numeric s" "\<not> isnull_all s"
  then obtain c where c: "c \<in> set s" "c \<noteq> NaN" by (auto simp: isnull_all_iff)
  with a(1) obtain x where "c = Num x" by (cases c) (auto simp: numeric_iff)
  with c have "x \<in> set (nums s)" by (simp add: nums_set)
  then show ?thesis by auto
qed

lemma exceeds_Max: "nums s \<noteq> [] \<Longrightarrow> exceeds s k \<longleftrightarrow> k < Max (set (nums s))"
  by (simp add: exceeds_def list_ex_iff Max_gr_iff)

lemma rescale_spec: "numeric s \<Longrightarrow> rescale s = MerchantMixNorm s"
proof (cases "isnull_all s")
  case True
  then show ?thesis by (simp add: rescale_null MerchantMixNorm_def isnull_all_iff)
next
  case False
  assume "numeric s"
  with False have "nums s \<noteq> []" by (rule nums_nonempty [rotated])
  then have "exceeds s 1.5 \<longleftrightarrow> 1.5 < Max (set (nums s))" by (rule exceeds_Max)
  with False show ?thesis
    unfolding rescale_def scaled_def MerchantMixNorm_def isnull_all_iff by presburger
qed

lemma astype_float_Some:
  assumes "astype_float f s = Some s'"
  shows "numeric s'" and "isnull_all s \<Longrightarrow> s' = s" and "length s' = length s"
proof -
  from assms have l: "list_all2 (\<lambda>x y. float_cell f x = Some y) s s'"
    by (simp add: astype_float_def those_map_Some)
  have nt: "\<not> is_text y" if "float_cell f x = Some y" for x y
    using that by (cases x) (auto split: option.splits)
  show "numeric s'"
    unfolding numeric_iff
  proof
    fix y assume "y \<in> set s'"
    then obtain i where "i < length s'" "s' ! i = y" by (auto simp: in_set_conv_nth)
    with l have "float_cell f (s ! i) = Some y" by (auto simp: list_all2_conv_all_nth)
    then show "\<not> is_text y" by (rule nt)
  qed
  from l show "length s' = length s" by (simp add: list_all2_lengthD)
  show "s' = s" if "isnull_all s"
  proof (rule nth_equalityI)
    from l show "length s' = length s" by (simp add: list_all2_lengthD)
    fix i assume "i < length s'"
    with l have i: "i < length s" "float_cell f (s ! i) = Some (s' ! i)"
      by (auto simp: list_all2_conv_all_nth)
    with that have "s ! i = NaN" by (auto simp: isnull_all_iff)
    with i show "s' ! i = s ! i" by simp
  qed
qed

lemma server_normalize_merchant_mix_Some:
  assumes "astype_float f s = Some s'"
  shows "server_normalize_merchant_mix f s = Some (rescale s')"
proof (cases "isnull_all s")
  case True
  with assms have "s' = s" by (rule astype_float_Some(2))
  with True show ?thesis by (simp add: server_normalize_merchant_mix_def rescale_null)
next
  case False
  from assms have "numeric s'" by (rule astype_float_Some(1))
  with False assms show ?thesis
    unfolding server_normalize_merchant_mix_def
    by (simp add: scaled_steps_at series_clip_scaled)
qed

lemma astype_float_numeric: "numeric s \<Longrightarrow> astype_float f s = Some s"
proof -
  assume a: "numeric s"
  have "float_cell f c = Some (id c)" if "c \<in> set s" for c
    by (cases c) (use that a in \<open>auto simp: numeric_iff\<close>)
  then have "those (map (float_cell f) s) = Some (map id s)" by (rule those_map_total)
  then show ?thesis by (simp add: astype_float_def)
qed

section \<open>The engines in closed form\<close>

lemma length_simps [simp]:
  "length (fillna v s) = length s" "length (to_numeric p s) = length s"
  "length (scaled s) = length s" "length (rescale s) = length s" "length (astype_int b) = length b"
  "length (series_and a b) = min (length a) (length b)"
  by (simp_all add: fillna_def to_numeric_def rescale_def scaled_def astype_int_def series_and_def)

lemma length_bnum [simp]: "wf df \<Longrightarrow> length (bnum p df c) = nrows df"
  by (simp add: bnum_def length_col_or)

lemma numeric_bnum [simp]: "numeric (bnum p df c)"
  by (simp add: bnum_def)

lemma normalize_merchant_mix_rescale:
  "normalize_merchant_mix s = (if numeric s then Some (rescale s) else None)"
  by (auto simp: normalize_merchant_mix_numeric rescale_null isnull_all_iff numeric_iff)

lemma batch_flags:
  assumes "wf df"
  shows "\<exists>d. wf d \<and> nrows d = nrows df \<and> get_col d = batch_cols p df
    \<and> compute_flags p df ''Merchant Mix Index'' =
        (if numeric (col_or df ''Merchant Mix Index'' NaN)
         then do { d' \<leftarrow> score_and_reasons d; target_positive d' } else None)"
proof -
  define D where "D = set_col (safe_load_defaults df) ''MerchantMix_norm''
                        (rescale (col_or df ''Merchant Mix Index'' NaN))"
  have wD: "wf D" unfolding D_def
    by (rule wf_set_col) (simp_all add: wf_safe_load_defaults assms length_col_or)
  have "distinct numeric_cols" by (simp add: numeric_cols_def)
  from for_cols_coerce_numeric [OF this, of p D] wD obtain D2 where
    D2: "for_cols (coerce_numeric p) numeric_cols D = Some D2" "nrows D2 = nrows df" "wf D2"
      "\<And>c. get_col D2 c =
          (if c \<in> set numeric_cols then Some (fillna (Num 0) (to_numeric p (col_or D c (Num 0))))
           else get_col D c)"
    by (auto simp: D_def)
  have co: "col_or D c (Num 0) = col_or df c NaN" if "c \<in> set numeric_cols" for c
    using that by (auto simp: D_def numeric_cols_def col_or_def get_col_sld_required REQUIRED_COLUMNS_def)
  have num: "get_col D2 c = Some (bnum p df c)" if "c \<in> set numeric_cols" for c
    using that by (simp add: D2(4) co bnum_def)
  have oth: "get_col D2 c = get_col D c" if "c \<notin> set numeric_cols" for c
    using that by (simp add: D2(4))
  define d where "d =
    set_col (set_col (set_col (set_col (set_col (set_col D2
      ''Avg Payment Ratio'' (rescale (bnum p df ''Avg Payment Ratio'')))
      ''flag_util_spike'' (util_spike (bnum p df ''Utilisation %'') (bnum p df ''Recent Spend Change %'')))
      ''flag_min_due_streak'' (min_due_streak (bnum p df ''Min Due Paid Frequency'')))
      ''flag_low_pay_ratio'' (low_pay_ratio (rescale (bnum p df ''Avg Payment Ratio''))))
      ''flag_cash_advance'' (cash_advance (bnum p df ''Cash Withdrawal %'') (bnum p df ''Utilisation %'')))
      ''flag_merchant_shift'' (merchant_shift (rescale (col_or df ''Merchant Mix Index'' NaN)))"
  have wd: "wf d" unfolding d_def
    by (intro wf_set_col D2(3))
       (simp_all add: D2(2) assms util_spike_def min_due_streak_def low_pay_ratio_def
          cash_advance_def merchant_shift_def length_col_or)
  have nd: "nrows d = nrows df" by (simp add: d_def D2(2))
  have gd: "get_col d = batch_cols p df"
  proof
    fix c
    show "get_col d c = batch_cols p df c"
      by (cases "c \<in> set numeric_cols")
         (auto simp: d_def batch_cols_def num oth D_def numeric_cols_def)
  qed
  have mmi: "get_col (safe_load_defaults df) ''Merchant Mix Index'' = Some (col_or df ''Merchant Mix Index'' NaN)"
    by (simp add: get_col_sld_required REQUIRED_COLUMNS_def)
  have run: "compute_flags p df ''Merchant Mix Index'' =
        (if numeric (col_or df ''Merchant Mix Index'' NaN)
         then do { d' \<leftarrow> score_and_reasons d; target_positive d' } else None)"
  proof (cases "numeric (col_or df ''Merchant Mix Index'' NaN)")
    case False
    then show ?thesis
      by (simp add: compute_flags_def mmi normalize_merchant_mix_rescale)
  next
    case True
    have g: "get_col D2 ''Avg Payment Ratio'' = Some (bnum p df ''Avg Payment Ratio'')"
       "get_col D2 ''Utilisation %'' = Some (bnum p df ''Utilisation %'')"
       "get_col D2 ''Recent Spend Change %'' = Some (bnum p df ''Recent Spend Change %'')"
       "get_col D2 ''Min Due Paid Frequency'' = Some (bnum p df ''Min Due Paid Frequency'')"
       "get_col D2 ''Cash Withdrawal %'' = Some (bnum p df ''Cash Withdrawal %'')"
       "get_col D2 ''MerchantMix_norm'' = Some (rescale (col_or df ''Merchant Mix Index'' NaN))"
      by (simp_all add: num oth numeric_cols_def D_def)
    show ?thesis
      using True
      by (simp add: compute_flags_def mmi normalize_merchant_mix_rescale D_def [symmetric] D2(1)
          g scaled_frame_steps series_clip_scaled series_cmp_numeric
          d_def util_spike_def min_due_streak_def low_pay_ratio_def
          cash_advance_def merchant_shift_def)
  qed
  from wd nd gd run show ?thesis by blast
qed

lemma length_snum [simp]: "wf df \<Longrightarrow> length (snum p df c) = nrows df"
  by (simp add: snum_def length_col_or)

lemma numeric_snum [simp]: "numeric (snum p df c)"
  by (simp add: snum_def)

lemma server_normalize_merchant_mix_cases:
  "server_normalize_merchant_mix f s =
     (if isnull_all s then Some s
      else case astype_float f s of None \<Rightarrow> None | Some s' \<Rightarrow> Some (rescale s'))"
proof (cases "astype_float f s")
  case None
  then show ?thesis by (simp add: server_normalize_merchant_mix_def)
next
  case (Some s')
  then have "server_normalize_merchant_mix f s = Some (rescale s')"
    by (rule server_normalize_merchant_mix_Some)
  moreover have "rescale s' = s" if "isnull_all s"
    using astype_float_Some(2) [OF Some that] that by (simp add: rescale_null)
  ultimately show ?thesis using Some by auto
qed

lemma server_normalize_merchant_mix_result:
  assumes "server_normalize_merchant_mix f s = Some mm"
  shows "numeric mm" and "length mm = length s"
proof -
  have "numeric mm \<and> length mm = length s"
  proof (cases "isnull_all s")
    case True
    with assms have "mm = s" by (simp add: server_normalize_merchant_mix_cases)
    with True show ?thesis by (auto simp: isnull_all_iff numeric_iff)
  next
    case False
    with assms obtain s' where s': "astype_float f s = Some s'" "mm = rescale s'"
      by (auto simp: server_normalize_merchant_mix_cases split: option.splits)
    from astype_float_Some(1,3) [OF s'(1)] s'(2) show ?thesis by simp
  qed
  then show "numeric mm" and "length mm = length s" by simp_all
qed

lemma server_mm_result:
  assumes "wf df" "server_mm f df = Some mm"
  shows "numeric mm" and "length mm = nrows df"
proof -
  have "numeric mm \<and> length mm = nrows df"
  proof (cases "get_col df ''Merchant Mix Index''")
    case None
    with assms show ?thesis by (auto simp: server_mm_def)
  next
    case (Some m)
    with assms have "server_normalize_merchant_mix f m = Some mm" by (simp add: server_mm_def)
    from server_normalize_merchant_mix_result [OF this] wf_length [OF assms(1) Some]
    show ?thesis by simp
  qed
  then show "numeric mm" and "length mm = nrows df" by simp_all
qed

lemma server_flags:
  assumes "wf df"
  shows "server_mm f df = None \<Longrightarrow> server_compute_flags p f df = None"
    and "server_mm f df = Some mm \<Longrightarrow>
      \<exists>d. wf d \<and> nrows d = nrows df \<and> get_col d = server_cols p df mm
        \<and> server_compute_flags p f df = score_and_reasons d"
proof -
  have "distinct numeric_cols" by (simp add: numeric_cols_def)
  from for_cols_server_coerce_numeric [OF this, of p df] assms obtain D2 where
    D2: "for_cols (server_coerce_numeric p) numeric_cols df = Some D2" "nrows D2 = nrows df" "wf D2"
      "\<And>c. get_col D2 c =
          (if c \<in> set numeric_cols then Some (to_numeric p (col_or df c NaN)) else get_col df c)"
    by auto
  have num: "get_col D2 c = Some (snum p df c)" if "c \<in> set numeric_cols" for c
    using that by (simp add: D2(4) snum_def)
  have oth: "get_col D2 c = get_col df c" if "c \<notin> set numeric_cols" for c
    using that by (simp add: D2(4))
  have g: "get_col D2 ''Avg Payment Ratio'' = Some (snum p df ''Avg Payment Ratio'')"
       "get_col D2 ''Utilisation %'' = Some (snum p df ''Utilisation %'')"
       "get_col D2 ''Recent Spend Change %'' = Some (snum p df ''Recent Spend Change %'')"
       "get_col D2 ''Min Due Paid Frequency'' = Some (snum p df ''Min Due Paid Frequency'')"
       "get_col D2 ''Cash Withdrawal %'' = Some (snum p df ''Cash Withdrawal %'')"
       "get_col D2 ''Merchant Mix Index'' = get_col df ''Merchant Mix Index''"
    by (simp_all add: num oth numeric_cols_def)
  have mstep: "(if has_col D2 ''Merchant Mix Index'' then
               do {
                 m \<leftarrow> get_col D2 ''Merchant Mix Index'';
                 mm \<leftarrow> server_normalize_merchant_mix f m;
                 Some (set_col D2 ''MerchantMix_norm'' mm)
               }
             else Some (set_scalar D2 ''MerchantMix_norm'' NaN))
      = map_option (set_col D2 ''MerchantMix_norm'') (server_mm f df)"
    by (cases "get_col df ''Merchant Mix Index''")
       (auto simp: has_col_iff g server_mm_def set_scalar_def D2(2) map_option_case
          split: option.splits)
  show "server_compute_flags p f df = None" if "server_mm f df = None"
    using that by (simp add: server_compute_flags_def D2(1) mstep)
  show "\<exists>d. wf d \<and> nrows d = nrows df \<and> get_col d = server_cols p df mm
        \<and> server_compute_flags p f df = score_and_reasons d" if mm: "server_mm f df = Some mm"
  proof -
    note r = server_mm_result [OF assms mm]
    define D3 where "D3 = set_col D2 ''MerchantMix_norm'' mm"
    define d where "d =
    set_col (set_col (set_col (set_col (set_col (set_col D3
      ''Avg Payment Ratio'' (fillna (Num 0) (rescale (snum p df ''Avg Payment Ratio''))))
      ''flag_util_spike'' (util_spike (fillna (Num 0) (snum p df ''Utilisation %''))
             (fillna (Num 0) (snum p df ''Recent Spend Change %''))))
      ''flag_min_due_streak'' (min_due_streak (fillna (Num 0) (snum p df ''Min Due Paid Frequency''))))
      ''flag_low_pay_ratio'' (low_pay_ratio (fillna (Num 1)
             (fillna (Num 0) (rescale (snum p df ''Avg Payment Ratio''))))))
      ''flag_cash_advance'' (cash_advance (fillna (Num 0) (snum p df ''Cash Withdrawal %''))
             (fillna (Num 0) (snum p df ''Utilisation %''))))
      ''flag_merchant_shift'' (merchant_shift (fillna (Num 1) mm))"
    have wD3: "wf D3" unfolding D3_def by (rule wf_set_col) (simp_all add: D2 r)
    have wd: "wf d" unfolding d_def
      by (intro wf_set_col wD3)
         (simp_all add: D3_def D2(2) assms r util_spike_def min_due_streak_def low_pay_ratio_def
          cash_advance_def merchant_shift_def)
    have nd: "nrows d = nrows df" by (simp add: d_def D3_def D2(2))
    have gd: "get_col d = server_cols p df mm"
    proof
      fix c
      show "get_col d c = server_cols p df mm c"
        by (cases "c \<in> set numeric_cols")
           (auto simp: d_def D3_def server_cols_def num oth numeric_cols_def)
    qed
    have run: "server_compute_flags p f df = score_and_reasons d"
      by (simp add: server_compute_flags_def D2(1) mstep mm D3_def [symmetric])
         (simp add: D3_def g scaled_frame_steps series_clip_scaled series_cmp_numeric r
          d_def util_spike_def min_due_streak_def low_pay_ratio_def
          cash_advance_def merchant_shift_def)
    from wd nd gd run show ?thesis by blast
  qed
qed

lemma sum_axis1_flags:
  assumes "\<And>s. s \<in> set ss \<Longrightarrow> \<exists>b. s = astype_int b \<and> length b = n"
  shows "sum_axis1 n ss = Some (map (\<lambda>i. Num (of_nat (count_true (map (\<lambda>s. s ! i) ss)))) [0..<n])"
  using assms
proof (induction ss)
  case Nil
  then show ?case by (simp add: count_true_def map_replicate_trivial)
next
  case (Cons s ss)
  then obtain b where b: "s = astype_int b" "length b = n" by auto
  from Cons have IH: "sum_axis1 n ss = Some (map (\<lambda>i. Num (of_nat (count_true (map (\<lambda>s. s ! i) ss)))) [0..<n])"
    by simp
  have "map2 cell_add s (map (\<lambda>i. Num (of_nat (count_true (map (\<lambda>s. s ! i) ss)))) [0..<n])
      = map Some (map (\<lambda>i. Num (of_nat (count_true (map (\<lambda>s. s ! i) (s # ss))))) [0..<n])"
    by (rule nth_equalityI) (simp_all add: b astype_int_def count_true_def)
  then show ?case by (simp add: IH those_eq_Some)
qed

lemma reasons_for_row_flags:
  assumes "row ''flag_util_spike'' = Some f1" "row ''flag_min_due_streak'' = Some f2"
    "row ''flag_low_pay_ratio'' = Some f3" "row ''flag_cash_advance'' = Some f4"
    "row ''flag_merchant_shift'' = Some f5"
  shows "reasons_for_row row = Some (Str (reasons_text [f1, f2, f3, f4, f5]))"
  using assms by (simp add: reasons_for_row_def reasons_text_def flag_labels_def Let_def)

lemma score_and_reasons_flags:
  assumes w: "wf d" and fl: "\<And>c. c \<in> set flag_cols \<Longrightarrow> bool_col d c"
  shows "\<exists>out. score_and_reasons d = Some out \<and> wf out \<and> nrows out = nrows d
    \<and> (\<forall>c. c \<notin> {''risk_score'', ''risk_tier'', ''reasons''} \<longrightarrow> get_col out c = get_col d c)
    \<and> (\<forall>i<nrows d. scored out i)"
proof -
  let ?n = "nrows d"
  from fl obtain b1 b2 b3 b4 b5 where
    b: "get_col d ''flag_util_spike'' = Some (astype_int b1)" "length b1 = ?n"
       "get_col d ''flag_min_due_streak'' = Some (astype_int b2)" "length b2 = ?n"
       "get_col d ''flag_low_pay_ratio'' = Some (astype_int b3)" "length b3 = ?n"
       "get_col d ''flag_cash_advance'' = Some (astype_int b4)" "length b4 = ?n"
       "get_col d ''flag_merchant_shift'' = Some (astype_int b5)" "length b5 = ?n"
    unfolding bool_col_def flag_cols_def by (metis list.set_intros)
  let ?fs = "[astype_int b1, astype_int b2, astype_int b3, astype_int b4, astype_int b5]"
  let ?at = "\<lambda>i. map (\<lambda>s. s ! i) ?fs"
  define score where "score = map (\<lambda>i. Num (of_nat (count_true (?at i)))) [0..<?n]"
  define tier where "tier = map (\<lambda>i. cut_num [-1, 0, 1, 999] [''Low'', ''Medium'', ''High'']
       (of_nat (count_true (?at i)))) [0..<?n]"
  define rs where "rs = map (\<lambda>i. Str (reasons_text (?at i))) [0..<?n]"
  define d1 where "d1 = set_col (set_col d ''risk_score'' score) ''risk_tier'' tier"
  define out where "out = set_col d1 ''reasons'' rs"
  have sel: "those (map (get_col d) flag_cols) = Some ?fs"
    by (simp add: flag_cols_def b)
  have sum: "sum_axis1 ?n ?fs = Some score"
    unfolding score_def by (rule sum_axis1_flags) (use b in auto)
  have cut: "pd_cut score [-1, 0, 1, 999] [''Low'', ''Medium'', ''High''] = Some tier"
    unfolding pd_cut_def those_eq_Some score_def tier_def
    by (simp add: comp_def del: cut_num.simps)
  have rows: "row_at d1 i c = Some (s ! i)" if "get_col d c = Some s" "c \<in> set flag_cols" for i c s
    using that by (auto simp: row_at_def d1_def flag_cols_def)
  have n1: "nrows d1 = ?n" by (simp add: d1_def)
  have row: "reasons_for_row (row_at d1 i) = Some (Str (reasons_text (?at i)))" for i
    by (simp only: list.map) (rule reasons_for_row_flags; simp add: row_at_def d1_def b)
  have app: "apply_rows d1 reasons_for_row = Some rs"
    unfolding apply_rows_def those_eq_Some rs_def n1 map_map comp_def
    by (simp only: row)
  have run: "score_and_reasons d = Some out"
    by (simp add: score_and_reasons_def sel sum cut d1_def [symmetric] app out_def
         del: cut_num.simps sum_axis1.simps)
  have wo: "wf out" unfolding out_def d1_def
    by (intro wf_set_col w) (simp_all add: score_def tier_def rs_def)
  have no: "nrows out = ?n" by (simp add: out_def d1_def)
  have fr: "get_col out c = get_col d c" if "c \<notin> {''risk_score'', ''risk_tier'', ''reasons''}" for c
    using that by (simp add: out_def d1_def)
  have pt: "scored out i" if i: "i < ?n" for i
  proof -
    have f: "flags_at out i = Some (?at i)"
      by (simp add: flags_at_def flag_cols_def row_at_def out_def d1_def b)
    have bits: "\<forall>x\<in>set (?at i). x = Num 0 \<or> x = Num 1"
      using i b by (auto simp: astype_int_def)
    have "row_at out i ''risk_score'' = Some (Num (of_nat (count_true (?at i))))"
      "row_at out i ''risk_tier'' =
               Some (cut_num [-1, 0, 1, 999] [''Low'', ''Medium'', ''High''] (of_nat (count_true (?at i))))"
      "row_at out i ''reasons'' = Some (Str (reasons_text (?at i)))"
      using i by (simp_all add: row_at_def out_def d1_def score_def tier_def rs_def del: cut_num.simps)
    with f bits show ?thesis unfolding scored_def by (intro exI [of _ "?at i"]) simp
  qed
  show ?thesis
  proof (intro exI [of _ out] conjI allI impI)
    show "score_and_reasons d = Some out" by (rule run)
    show "wf out" by (rule wo)
    show "nrows out = nrows d" by (rule no)
    show "get_col out c = get_col d c" if "c \<notin> {''risk_score'', ''risk_tier'', ''reasons''}" for c
      using that by (rule fr)
    show "scored out i" if "i < nrows d" for i using that by (rule pt)
  qed
qed

subsection \<open>What a run returns\<close>

lemma target_positive_frame:
  assumes "target_positive d = Some out"
  shows "nrows out = nrows d" and "c \<noteq> ''target_positive'' \<Longrightarrow> get_col out c = get_col d c"
  using assms
  by (auto simp: target_positive_def bind_eq_Some_conv split: option.splits if_splits)

lemma target_positive_defined:
  assumes "get_col d ''DPD Bucket Next Month'' = Some nxt"
  shows "target_positive d \<noteq> None \<longleftrightarrow>
     (case get_col d ''Current DPD Bucket'' of
        None \<Rightarrow> True
      | Some cur \<Rightarrow> isnull_all cur
          \<or> series_gt (fillna (Num 0) nxt) (fillna (Num 0) cur) \<noteq> None)"
proof (cases "get_col d ''Current DPD Bucket''")
  case None
  with assms show ?thesis by (simp add: target_positive_def)
next
  case (Some cur)
  show ?thesis
  proof (cases "isnull_all cur")
    case True
    with Some assms show ?thesis by (simp add: target_positive_def)
  next
    case False
    with Some assms show ?thesis
      by (cases "series_gt (fillna (Num 0) nxt) (fillna (Num 0) cur)")
         (simp_all add: target_positive_def)
  qed
qed

lemma flags_at_cong:
  "(\<And>c. c \<in> set flag_cols \<Longrightarrow> get_col a c = get_col b c) \<Longrightarrow> flags_at a i = flags_at b i"
  by (simp add: flags_at_def row_at_def flag_cols_def)

lemma row_at_cong: "get_col a c = get_col b c \<Longrightarrow> row_at a i c = row_at b i c"
  by (simp add: row_at_def)

lemma scored_cong:
  assumes "\<And>c. c \<in> set flag_cols \<union> {''risk_score'', ''risk_tier'', ''reasons''} \<Longrightarrow> get_col a c = get_col b c"
  shows "scored a i = scored b i"
proof -
  have "flags_at a i = flags_at b i" by (rule flags_at_cong) (simp add: assms)
  moreover have "row_at a i ''risk_score'' = row_at b i ''risk_score''"
    "row_at a i ''risk_tier'' = row_at b i ''risk_tier''"
    "row_at a i ''reasons'' = row_at b i ''reasons''"
    by (rule row_at_cong, simp add: assms)+
  ultimately show ?thesis by (simp add: scored_def)
qed

lemma flag_cols_cases:
  "c \<in> set flag_cols \<Longrightarrow> c = ''flag_util_spike'' \<or> c = ''flag_min_due_streak''
    \<or> c = ''flag_low_pay_ratio'' \<or> c = ''flag_cash_advance'' \<or> c = ''flag_merchant_shift''"
  by (simp add: flag_cols_def)

lemma bool_colI: "get_col d c = Some (astype_int x) \<Longrightarrow> length x = nrows d \<Longrightarrow> bool_col d c"
  unfolding bool_col_def by (rule exI [of _ x]) simp

lemma batch_cols_bool:
  assumes "wf df" "get_col d = batch_cols p df" "nrows d = nrows df" "c \<in> set flag_cols"
  shows "bool_col d c"
  using flag_cols_cases [OF assms(4)]
proof (elim disjE)
  assume "c = ''flag_util_spike''"
  then have "get_col d c = Some (util_spike (bnum p df ''Utilisation %'') (bnum p df ''Recent Spend Change %''))"
    by (simp add: assms(2) batch_cols_def)
  then show ?thesis unfolding util_spike_def by (rule bool_colI) (simp add: assms series_and_def)
next
  assume "c = ''flag_min_due_streak''"
  then have "get_col d c = Some (min_due_streak (bnum p df ''Min Due Paid Frequency''))"
    by (simp add: assms(2) batch_cols_def)
  then show ?thesis unfolding min_due_streak_def by (rule bool_colI) (simp add: assms)
next
  assume "c = ''flag_low_pay_ratio''"
  then have "get_col d c = Some (low_pay_ratio (rescale (bnum p df ''Avg Payment Ratio'')))"
    by (simp add: assms(2) batch_cols_def)
  then show ?thesis unfolding low_pay_ratio_def by (rule bool_colI) (simp add: assms)
next
  assume "c = ''flag_cash_advance''"
  then have "get_col d c = Some (cash_advance (bnum p df ''Cash Withdrawal %'') (bnum p df ''Utilisation %''))"
    by (simp add: assms(2) batch_cols_def)
  then show ?thesis unfolding cash_advance_def by (rule bool_colI) (simp add: assms series_and_def)
next
  assume "c = ''flag_merchant_shift''"
  then have "get_col d c = Some (merchant_shift (rescale (col_or df ''Merchant Mix Index'' NaN)))"
    by (simp add: assms(2) batch_cols_def)
  then show ?thesis unfolding merchant_shift_def
    by (rule bool_colI) (simp add: assms length_col_or)
qed

lemma batch_run:
  assumes w: "wf df"
  shows "compute_flags p df ''Merchant Mix Index'' \<noteq> None \<longleftrightarrow>
           numeric (col_or df ''Merchant Mix Index'' NaN) \<and> dpd_comparable df"
    and "compute_flags p df ''Merchant Mix Index'' = Some out \<Longrightarrow>
           nrows out = nrows df
         \<and> (\<forall>c. c \<notin> {''risk_score'', ''risk_tier'', ''reasons'', ''target_positive''} \<longrightarrow>
               get_col out c = batch_cols p df c)
         \<and> (\<forall>i<nrows df. scored out i)"
proof -
  from batch_flags [OF w, of p] obtain d where
    d: "wf d" "nrows d = nrows df" "get_col d = batch_cols p df"
     "compute_flags p df ''Merchant Mix Index'' =
        (if numeric (col_or df ''Merchant Mix Index'' NaN)
         then do { d' \<leftarrow> score_and_reasons d; target_positive d' } else None)"
    by blast
  have "bool_col d c" if "c \<in> set flag_cols" for c
    using w d(3,2) that by (rule batch_cols_bool)
  from score_and_reasons_flags [OF d(1) this] obtain d' where
    d': "score_and_reasons d = Some d'" "wf d'" "nrows d' = nrows d"
      "\<And>c. c \<notin> {''risk_score'', ''risk_tier'', ''reasons''} \<Longrightarrow> get_col d' c = get_col d c"
      "\<And>i. i < nrows d \<Longrightarrow> scored d' i"
    by blast
  have run: "compute_flags p df ''Merchant Mix Index'' =
        (if numeric (col_or df ''Merchant Mix Index'' NaN) then target_positive d' else None)"
    by (simp add: d(4) d'(1))
  have nxt: "get_col d' ''DPD Bucket Next Month'' = Some (col_or df ''DPD Bucket Next Month'' NaN)"
    by (simp add: d'(4) d(3) batch_cols_def get_col_sld_required REQUIRED_COLUMNS_def)
  have cur: "get_col d' ''Current DPD Bucket'' = get_col df ''Current DPD Bucket''"
    by (simp add: d'(4) d(3) batch_cols_def get_col_safe_load_defaults REQUIRED_COLUMNS_def
        split: option.splits)
  show "compute_flags p df ''Merchant Mix Index'' \<noteq> None \<longleftrightarrow>
           numeric (col_or df ''Merchant Mix Index'' NaN) \<and> dpd_comparable df"
    using target_positive_defined [OF nxt]
    by (simp add: run cur dpd_comparable_def)
  show "nrows out = nrows df
         \<and> (\<forall>c. c \<notin> {''risk_score'', ''risk_tier'', ''reasons'', ''target_positive''} \<longrightarrow>
               get_col out c = batch_cols p df c)
         \<and> (\<forall>i<nrows df. scored out i)" if "compute_flags p df ''Merchant Mix Index'' = Some out"
  proof -
    from that have tp: "target_positive d' = Some out" by (simp add: run split: if_splits)
    note f = target_positive_frame [OF tp]
    have "scored out i = scored d' i" for i
      by (rule scored_cong) (auto simp: f(2) flag_cols_def)
    with d'(5) d(2) have "\<forall>i<nrows df. scored out i" by simp
    moreover have "get_col out c = batch_cols p df c"
      if "c \<notin> {''risk_score'', ''risk_tier'', ''reasons'', ''target_positive''}" for c
      using that by (simp add: f(2) d'(4) d(3))
    ultimately show ?thesis by (simp add: f(1) d'(3) d(2))
  qed
qed

lemma server_cols_bool:
  assumes "wf df" "get_col d = server_cols p df mm" "nrows d = nrows df"
    "length mm = nrows df" "c \<in> set flag_cols"
  shows "bool_col d c"
  using flag_cols_cases [OF assms(5)]
proof (elim disjE)
  assume "c = ''flag_util_spike''"
  then have "get_col d c = Some (util_spike (fillna (Num 0) (snum p df ''Utilisation %''))
             (fillna (Num 0) (snum p df ''Recent Spend Change %'')))"
    by (simp add: assms(2) server_cols_def)
  then show ?thesis unfolding util_spike_def by (rule bool_colI) (simp add: assms series_and_def)
next
  assume "c = ''flag_min_due_streak''"
  then have "get_col d c = Some (min_due_streak (fillna (Num 0) (snum p df ''Min Due Paid Frequency'')))"
    by (simp add: assms(2) server_cols_def)
  then show ?thesis unfolding min_due_streak_def by (rule bool_colI) (simp add: assms)
next
  assume "c = ''flag_low_pay_ratio''"
  then have "get_col d c = Some (low_pay_ratio (fillna (Num 1)
             (fillna (Num 0) (rescale (snum p df ''Avg Payment Ratio'')))))"
    by (simp add: assms(2) server_cols_def)
  then show ?thesis unfolding low_pay_ratio_def by (rule bool_colI) (simp add: assms)
next
  assume "c = ''flag_cash_advance''"
  then have "get_col d c = Some (cash_advance (fillna (Num 0) (snum p df ''Cash Withdrawal %''))
             (fillna (Num 0) (snum p df ''Utilisation %'')))"
    by (simp add: assms(2) server_cols_def)
  then show ?thesis unfolding cash_advance_def by (rule bool_colI) (simp add: assms series_and_def)
next
  assume "c = ''flag_merchant_shift''"
  then have "get_col d c = Some (merchant_shift (fillna (Num 1) mm))"
    by (simp add: assms(2) server_cols_def)
  then show ?thesis unfolding merchant_shift_def by (rule bool_colI) (simp add: assms)
qed

lemma server_run:
  assumes w: "wf df"
  shows "server_compute_flags p f df \<noteq> None \<longleftrightarrow> server_mm f df \<noteq> None"
    and "server_compute_flags p f df = Some out \<Longrightarrow>
           \<exists>mm. server_mm f df = Some mm \<and> nrows out = nrows df
         \<and> (\<forall>c. c \<notin> {''risk_score'', ''risk_tier'', ''reasons''} \<longrightarrow>
               get_col out c = server_cols p df mm c)
         \<and> (\<forall>i<nrows df. scored out i)"
proof -
  have *: "\<exists>out. server_compute_flags p f df = Some out \<and> nrows out = nrows df
         \<and> (\<forall>c. c \<notin> {''risk_score'', ''risk_tier'', ''reasons''} \<longrightarrow>
               get_col out c = server_cols p df mm c)
         \<and> (\<forall>i<nrows df. scored out i)" if mm: "server_mm f df = Some mm" for mm
  proof -
    from server_flags(2) [OF w mm, of p] obtain d where
      d: "wf d" "nrows d = nrows df" "get_col d = server_cols p df mm"
        "server_compute_flags p f df = score_and_reasons d"
      by blast
    have "bool_col d c" if "c \<in> set flag_cols" for c
      using w d(3,2) server_mm_result(2) [OF w mm] that by (rule server_cols_bool)
    from score_and_reasons_flags [OF d(1) this] d show ?thesis by auto
  qed
  show "server_compute_flags p f df \<noteq> None \<longleftrightarrow> server_mm f df \<noteq> None"
    using server_flags(1) [OF w, of f p] * by (cases "server_mm f df") auto
  show "\<exists>mm. server_mm f df = Some mm \<and> nrows out = nrows df
         \<and> (\<forall>c. c \<notin> {''risk_score'', ''risk_tier'', ''reasons''} \<longrightarrow>
               get_col out c = server_cols p df mm c)
         \<and> (\<forall>i<nrows df. scored out i)" if "server_compute_flags p f df = Some out"
    using server_flags(1) [OF w, of f p] * that by (cases "server_mm f df") auto
qed

section \<open>The claims\<close>

text \<open>
  Claim C5. The merchant-mix normalisation of both engines computes the specification's
  \<open>MerchantMixNorm\<close>: an entirely missing column passes through unchanged; otherwise the
  column is divided by 100 when its maximum observed value exceeds 1.5, and is then
  clipped to [0, 1]. The batch function does so on every column without text; the
  serving function on every column its conversion to floats accepts, applied to the
  converted column.
\<close>

theorem merchant_mix_norm_refines:
  "(numeric col \<longrightarrow> normalize_merchant_mix col = Some (MerchantMixNorm col)
      \<and> server_normalize_merchant_mix float_of_text col = Some (MerchantMixNorm col))
   \<and> (astype_float float_of_text col = Some col' \<longrightarrow>
        server_normalize_merchant_mix float_of_text col = Some (MerchantMixNorm col'))"
proof (intro conjI impI)
  assume n: "numeric col"
  then have "rescale col = MerchantMixNorm col" by (rule rescale_spec)
  with n show "normalize_merchant_mix col = Some (MerchantMixNorm col)"
    by (auto simp: normalize_merchant_mix_numeric dest: rescale_null)
  from n have "astype_float float_of_text col = Some col" by (rule astype_float_numeric)
  then have "server_normalize_merchant_mix float_of_text col = Some (rescale col)"
    by (rule server_normalize_merchant_mix_Some)
  with n show "server_normalize_merchant_mix float_of_text col = Some (MerchantMixNorm col)"
    by (simp add: rescale_spec)
next
  assume a: "astype_float float_of_text col = Some col'"
  then have "numeric col'" by (rule astype_float_Some(1))
  with server_normalize_merchant_mix_Some [OF a]
  show "server_normalize_merchant_mix float_of_text col = Some (MerchantMixNorm col')"
    by (simp add: rescale_spec)
qed

theorem merchant_mix_norm_refines_witness:
  "numeric [Num 90, NaN, Num 20]
   \<and> normalize_merchant_mix [Num 90, NaN, Num 20] = Some [Num 0.9, NaN, Num 0.2]
   \<and> astype_float (\<lambda>t. if t = ''0.5'' then Some (Some 0.5) else None) [Str ''0.5'', Num 3]
       = Some [Num 0.5, Num 3]
   \<and> server_normalize_merchant_mix (\<lambda>t. if t = ''0.5'' then Some (Some 0.5) else None)
       [Str ''0.5'', Num 3] = Some [Num 0.005, Num 0.03]"
  using merchant_mix_norm_refines [of "[Num 90, NaN, Num 20]" "\<lambda>t. None" "[]"]
    merchant_mix_norm_refines [of "[Str ''0.5'', Num 3]"
      "\<lambda>t. if t = ''0.5'' then Some (Some 0.5) else None" "[Num 0.5, Num 3]"]
  by (simp add: numeric_def MerchantMixNorm_def clip01_def astype_float_def)

lemma batch_flags_at:
  assumes "wf df" "compute_flags p df ''Merchant Mix Index'' = Some out"
  shows "flags_at out i = Some (batch_flags_row p df i)"
proof -
  from batch_run(2) [OF assms] have
    g: "\<And>c. c \<notin> {''risk_score'', ''risk_tier'', ''reasons'', ''target_positive''} \<Longrightarrow>
               get_col out c = batch_cols p df c"
    by blast
  have "get_col out ''flag_util_spike'' = batch_cols p df ''flag_util_spike''"
    "get_col out ''flag_min_due_streak'' = batch_cols p df ''flag_min_due_streak''"
    "get_col out ''flag_low_pay_ratio'' = batch_cols p df ''flag_low_pay_ratio''"
    "get_col out ''flag_cash_advance'' = batch_cols p df ''flag_cash_advance''"
    "get_col out ''flag_merchant_shift'' = batch_cols p df ''flag_merchant_shift''"
    by (rule g, simp)+
  then show ?thesis
    by (simp add: flags_at_def flag_cols_def row_at_def batch_cols_def batch_flags_row_def)
qed

lemma server_flags_at:
  assumes "wf df" "server_compute_flags p f df = Some out"
  shows "\<exists>mm. server_mm f df = Some mm \<and> flags_at out i = Some (server_flags_row p df mm i)"
proof -
  from server_run(2) [OF assms] obtain mm where mm: "server_mm f df = Some mm" and
    g: "\<And>c. c \<notin> {''risk_score'', ''risk_tier'', ''reasons''} \<Longrightarrow>
               get_col out c = server_cols p df mm c"
    by blast
  have "get_col out ''flag_util_spike'' = server_cols p df mm ''flag_util_spike''"
    "get_col out ''flag_min_due_streak'' = server_cols p df mm ''flag_min_due_streak''"
    "get_col out ''flag_low_pay_ratio'' = server_cols p df mm ''flag_low_pay_ratio''"
    "get_col out ''flag_cash_advance'' = server_cols p df mm ''flag_cash_advance''"
    "get_col out ''flag_merchant_shift'' = server_cols p df mm ''flag_merchant_shift''"
    by (rule g, simp)+
  then have "flags_at out i = Some (server_flags_row p df mm i)"
    by (simp add: flags_at_def flag_cols_def row_at_def server_cols_def server_flags_row_def)
  with mm show ?thesis by blast
qed

lemma count_true_le: "count_true fs \<le> length fs"
  by (simp add: count_true_def)

lemma scored_score:
  assumes "scored out i"
  shows "\<exists>fs. flags_at out i = Some fs \<and> length fs = 5
      \<and> (\<forall>x\<in>set fs. x = Num 0 \<or> x = Num 1)
      \<and> row_at out i ''risk_score'' = Some (Num (of_nat (count_true fs)))
      \<and> count_true fs \<le> 5"
proof -
  from assms obtain fs where fs: "flags_at out i = Some fs" "length fs = 5"
      "\<forall>x\<in>set fs. x = Num 0 \<or> x = Num 1"
      "row_at out i ''risk_score'' = Some (Num (of_nat (count_true fs)))"
    unfolding scored_def by blast
  from count_true_le [of fs] fs(2) have "count_true fs \<le> 5" by simp
  with fs show ?thesis by blast
qed

text \<open>
  Claim C1. In the result of either engine, the \<open>risk_score\<close> of every record is the
  number of true flags among its five flags, each of which is 0 or 1; so the score is a
  whole number between 0 and 5.
\<close>

theorem risk_score_counts_flags:
  assumes "wf df" and "i < nrows df"
  shows "(compute_flags p df ''Merchant Mix Index'' = Some out \<longrightarrow>
          (\<exists>fs. flags_at out i = Some fs \<and> length fs = 5
             \<and> (\<forall>x\<in>set fs. x = Num 0 \<or> x = Num 1)
             \<and> row_at out i ''risk_score'' = Some (Num (of_nat (count_true fs)))
             \<and> count_true fs \<le> 5))
       \<and> (server_compute_flags p f df = Some out' \<longrightarrow>
          (\<exists>fs. flags_at out' i = Some fs \<and> length fs = 5
             \<and> (\<forall>x\<in>set fs. x = Num 0 \<or> x = Num 1)
             \<and> row_at out' i ''risk_score'' = Some (Num (of_nat (count_true fs)))
             \<and> count_true fs \<le> 5))"
proof (intro conjI impI)
  assume "compute_flags p df ''Merchant Mix Index'' = Some out"
  from batch_run(2) [OF assms(1) this] assms(2) have "scored out i" by blast
  then show "\<exists>fs. flags_at out i = Some fs \<and> length fs = 5
             \<and> (\<forall>x\<in>set fs. x = Num 0 \<or> x = Num 1)
             \<and> row_at out i ''risk_score'' = Some (Num (of_nat (count_true fs)))
             \<and> count_true fs \<le> 5"
    by (rule scored_score)
next
  assume "server_compute_flags p f df = Some out'"
  from server_run(2) [OF assms(1) this] assms(2) have "scored out' i" by blast
  then show "\<exists>fs. flags_at out' i = Some fs \<and> length fs = 5
             \<and> (\<forall>x\<in>set fs. x = Num 0 \<or> x = Num 1)
             \<and> row_at out' i ''risk_score'' = Some (Num (of_nat (count_true fs)))
             \<and> count_true fs \<le> 5"
    by (rule scored_score)
qed

lemma wf_two_customers: "wf two_customers"
  by (simp add: wf_def two_customers_def)

lemma two_customers_cols:
  "col_or two_customers ''Utilisation %'' NaN = [Num 85, Num 10]"
  "col_or two_customers ''Recent Spend Change %'' NaN = [Num 25, NaN]"
  "col_or two_customers ''Avg Payment Ratio'' NaN = [Num 90, Num 30]"
  "col_or two_customers ''Merchant Mix Index'' NaN = [Num 0.9, Num 0.2]"
  "col_or two_customers ''Min Due Paid Frequency'' NaN = [NaN, NaN]"
  "col_or two_customers ''Cash Withdrawal %'' NaN = [NaN, NaN]"
  "col_or two_customers ''DPD Bucket Next Month'' NaN = [NaN, NaN]"
  "get_col two_customers ''Current DPD Bucket'' = None"
  "get_col two_customers ''Merchant Mix Index'' = Some [Num 0.9, Num 0.2]"
  "nrows two_customers = 2"
  by (simp_all add: col_or_def get_col_def two_customers_def numeral_2_eq_2)

lemma two_customers_batch_runs:
  "\<exists>out. compute_flags no_text two_customers ''Merchant Mix Index'' = Some out"
  using batch_run(1) [OF wf_two_customers, of no_text]
  by (simp add: two_customers_cols dpd_comparable_def)

lemma two_customers_batch_flags:
  "batch_flags_row no_text two_customers 0 = [Num 1, Num 0, Num 0, Num 0, Num 0]"
  "batch_flags_row no_text two_customers 1 = [Num 0, Num 0, Num 1, Num 0, Num 1]"
  by (simp_all add: batch_flags_row_def bnum_def two_customers_cols to_numeric_def fillna_def
      util_spike_def min_due_streak_def low_pay_ratio_def cash_advance_def merchant_shift_def
      astype_int_def series_and_def rescale_def scaled_def exceeds_def clip01_def)

lemma two_customers_server_runs:
  "server_mm no_float two_customers = Some [Num 0.9, Num 0.2]"
  "\<exists>out. server_compute_flags no_text no_float two_customers = Some out"
proof -
  show mm: "server_mm no_float two_customers = Some [Num 0.9, Num 0.2]"
    by (simp add: server_mm_def two_customers_cols server_normalize_merchant_mix_cases
        isnull_all_def astype_float_def rescale_def scaled_def exceeds_def clip01_def)
  with server_run(1) [OF wf_two_customers, of no_text no_float]
  show "\<exists>out. server_compute_flags no_text no_float two_customers = Some out" by simp
qed

lemma two_customers_server_flags:
  "server_flags_row no_text two_customers [Num 0.9, Num 0.2] 0 = [Num 1, Num 0, Num 0, Num 0, Num 0]"
  "server_flags_row no_text two_customers [Num 0.9, Num 0.2] 1 = [Num 0, Num 0, Num 1, Num 0, Num 1]"
  by (simp_all add: server_flags_row_def snum_def two_customers_cols to_numeric_def fillna_def
      util_spike_def min_due_streak_def low_pay_ratio_def cash_advance_def merchant_shift_def
      astype_int_def series_and_def rescale_def scaled_def exceeds_def clip01_def)

theorem risk_score_counts_flags_witness:
  "wf two_customers \<and> 1 < nrows two_customers
   \<and> (\<exists>out. compute_flags no_text two_customers ''Merchant Mix Index'' = Some out
        \<and> flags_at out 1 = Some [Num 0, Num 0, Num 1, Num 0, Num 1]
        \<and> row_at out 1 ''risk_score'' = Some (Num 2))
   \<and> (\<exists>out. server_compute_flags no_text no_float two_customers = Some out
        \<and> flags_at out 1 = Some [Num 0, Num 0, Num 1, Num 0, Num 1]
        \<and> row_at out 1 ''risk_score'' = Some (Num 2))"
proof -
  have n: "1 < nrows two_customers" by (simp add: two_customers_cols)
  from two_customers_batch_runs obtain out where
    out: "compute_flags no_text two_customers ''Merchant Mix Index'' = Some out" ..
  from two_customers_server_runs(2) obtain out' where
    out': "server_compute_flags no_text no_float two_customers = Some out'" ..
  have f: "flags_at out 1 = Some [Num 0, Num 0, Num 1, Num 0, Num 1]"
    using batch_flags_at [OF wf_two_customers out, of 1] by (simp only: two_customers_batch_flags)
  have f': "flags_at out' 1 = Some [Num 0, Num 0, Num 1, Num 0, Num 1]"
    using server_flags_at [OF wf_two_customers out', of 1]
    by (simp only: two_customers_server_runs(1) two_customers_server_flags option.inject simp_thms ex_simps)
  from risk_score_counts_flags [OF wf_two_customers n, of no_text out no_float out'] out out' f f'
  have "row_at out 1 ''risk_score'' = Some (Num 2)" "row_at out' 1 ''risk_score'' = Some (Num 2)"
    by (auto simp: count_true_def)
  with wf_two_customers n out out' f f' show ?thesis by blast
qed

lemma cut_num_bins:
  "cut_num [-1, 0, 1, 999] [''Low'', ''Medium'', ''High''] x =
     (if -1 < x \<and> x \<le> 0 then Str ''Low''
      else if 0 < x \<and> x \<le> 1 then Str ''Medium''
      else if 1 < x \<and> x \<le> 999 then Str ''High'' else NaN)"
  by simp

lemma scored_tiered:
  assumes "scored out i"
  shows "tiered out i"
proof -
  from assms obtain fs where fs: "length fs = 5"
      "row_at out i ''risk_score'' = Some (Num (of_nat (count_true fs)))"
      "row_at out i ''risk_tier'' =
         Some (cut_num [-1, 0, 1, 999] [''Low'', ''Medium'', ''High''] (of_nat (count_true fs)))"
    unfolding scored_def by blast
  define k where "k = count_true fs"
  from count_true_le [of fs] fs(1) have k: "k \<le> 5" by (simp add: k_def)
  define t where "t = (if k = 0 then ''Low'' else if k = 1 then ''Medium'' else ''High'')"
  have c: "cut_num [-1, 0, 1, 999] [''Low'', ''Medium'', ''High''] (of_nat k) = Str t"
    using k unfolding cut_num_bins t_def by (cases "k = 0"; cases "k = 1") auto
  have "(t = ''Low'' \<longleftrightarrow> k = 0) \<and> (t = ''Medium'' \<longleftrightarrow> k = 1) \<and> (t = ''High'' \<longleftrightarrow> 2 \<le> k)"
    by (auto simp: t_def)
  with fs(2,3) c show ?thesis
    unfolding tiered_def k_def [symmetric] by (intro exI [of _ k] exI [of _ t]) simp
qed

text \<open>
  Claim C2. In the result of either engine, the \<open>risk_tier\<close> of every record is a function
  of its \<open>risk_score\<close>: the label of the bin of \<open>(-1, 0, 1, 999]\<close> that holds the score,
  bins open on the left and closed on the right; it is Low exactly when the score is 0,
  Medium exactly when it is 1, and High exactly when it is 2 or more.
\<close>

theorem risk_tier_of_score:
  assumes "wf df" and "i < nrows df"
  shows "(compute_flags p df ''Merchant Mix Index'' = Some out \<longrightarrow> tiered out i)
       \<and> (server_compute_flags p f df = Some out' \<longrightarrow> tiered out' i)
       \<and> (\<forall>x. cut_num [-1, 0, 1, 999] [''Low'', ''Medium'', ''High''] x =
             (if -1 < x \<and> x \<le> 0 then Str ''Low''
              else if 0 < x \<and> x \<le> 1 then Str ''Medium''
              else if 1 < x \<and> x \<le> 999 then Str ''High'' else NaN))"
proof (intro conjI impI allI)
  assume "compute_flags p df ''Merchant Mix Index'' = Some out"
  from batch_run(2) [OF assms(1) this] assms(2) have "scored out i" by blast
  then show "tiered out i" by (rule scored_tiered)
next
  assume "server_compute_flags p f df = Some out'"
  from server_run(2) [OF assms(1) this] assms(2) have "scored out' i" by blast
  then show "tiered out' i" by (rule scored_tiered)
next
  fix x
  show "cut_num [-1, 0, 1, 999] [''Low'', ''Medium'', ''High''] x =
             (if -1 < x \<and> x \<le> 0 then Str ''Low''
              else if 0 < x \<and> x \<le> 1 then Str ''Medium''
              else if 1 < x \<and> x \<le> 999 then Str ''High'' else NaN)"
    by (rule cut_num_bins)
qed

theorem risk_tier_of_score_witness:
  "wf two_customers \<and> 0 < nrows two_customers
   \<and> (\<exists>out. compute_flags no_text two_customers ''Merchant Mix Index'' = Some out
        \<and> row_at out 0 ''risk_score'' = Some (Num 1)
        \<and> row_at out 0 ''risk_tier'' = Some (Str ''Medium''))
   \<and> (\<exists>out. server_compute_flags no_text no_float two_customers = Some out
        \<and> row_at out 0 ''risk_score'' = Some (Num 1)
        \<and> row_at out 0 ''risk_tier'' = Some (Str ''Medium''))"
proof -
  have n: "0 < nrows two_customers" by (simp add: two_customers_cols)
  from two_customers_batch_runs obtain out where
    out: "compute_flags no_text two_customers ''Merchant Mix Index'' = Some out" ..
  from two_customers_server_runs(2) obtain out' where
    out': "server_compute_flags no_text no_float two_customers = Some out'" ..
  have f: "flags_at out 0 = Some [Num 1, Num 0, Num 0, Num 0, Num 0]"
    using batch_flags_at [OF wf_two_customers out, of 0] by (simp only: two_customers_batch_flags)
  have f': "flags_at out' 0 = Some [Num 1, Num 0, Num 0, Num 0, Num 0]"
    using server_flags_at [OF wf_two_customers out', of 0]
    by (simp only: two_customers_server_runs(1) two_customers_server_flags option.inject simp_thms ex_simps)
  from batch_run(2) [OF wf_two_customers out] n have "scored out 0" by blast
  with f have s: "row_at out 0 ''risk_score'' = Some (Num 1)"
    by (auto simp: scored_def count_true_def)
  from server_run(2) [OF wf_two_customers out'] n have "scored out' 0" by blast
  with f' have s': "row_at out' 0 ''risk_score'' = Some (Num 1)"
    by (auto simp: scored_def count_true_def)
  from risk_tier_of_score [OF wf_two_customers n, of no_text out no_float out'] out out'
  have "tiered out 0" "tiered out' 0" by blast+
  with s s' have "row_at out 0 ''risk_tier'' = Some (Str ''Medium'')"
    "row_at out' 0 ''risk_tier'' = Some (Str ''Medium'')"
    by (auto simp: tiered_def)
  with wf_two_customers n out out' s s' show ?thesis by blast
qed

text \<open>
  Claim C9. In the result of either engine, the \<open>reasons\<close> of every record are the labels
  of exactly its true flags, in the order in which the flags are declared (Util Spike,
  Min Due Streak, Low Payment Ratio, Cash Advance, Merchant Mix Shift), joined with a comma
  and a space; with no true flag the field is the text None.
\<close>

theorem reasons_list_true_flags:
  assumes "wf df" and "i < nrows df"
  shows "(compute_flags p df ''Merchant Mix Index'' = Some out \<longrightarrow>
          (\<exists>fs. flags_at out i = Some fs \<and> length fs = length flag_labels
             \<and> row_at out i ''reasons'' = Some (Str (reasons_text fs))))
       \<and> (server_compute_flags p f df = Some out' \<longrightarrow>
          (\<exists>fs. flags_at out' i = Some fs \<and> length fs = length flag_labels
             \<and> row_at out' i ''reasons'' = Some (Str (reasons_text fs))))"
proof (intro conjI impI)
  assume "compute_flags p df ''Merchant Mix Index'' = Some out"
  from batch_run(2) [OF assms(1) this] assms(2) have "scored out i" by blast
  then show "\<exists>fs. flags_at out i = Some fs \<and> length fs = length flag_labels
             \<and> row_at out i ''reasons'' = Some (Str (reasons_text fs))"
    unfolding scored_def flag_labels_def by auto
next
  assume "server_compute_flags p f df = Some out'"
  from server_run(2) [OF assms(1) this] assms(2) have "scored out' i" by blast
  then show "\<exists>fs. flags_at out' i = Some fs \<and> length fs = length flag_labels
             \<and> row_at out' i ''reasons'' = Some (Str (reasons_text fs))"
    unfolding scored_def flag_labels_def by auto
qed

theorem reasons_list_true_flags_witness:
  "wf two_customers \<and> 1 < nrows two_customers
   \<and> (\<exists>out. compute_flags no_text two_customers ''Merchant Mix Index'' = Some out
        \<and> flags_at out 1 = Some [Num 0, Num 0, Num 1, Num 0, Num 1]
        \<and> row_at out 1 ''reasons'' = Some (Str ''Low Payment Ratio, Merchant Mix Shift''))
   \<and> (\<exists>out. server_compute_flags no_text no_float two_customers = Some out
        \<and> flags_at out 1 = Some [Num 0, Num 0, Num 1, Num 0, Num 1]
        \<and> row_at out 1 ''reasons'' = Some (Str ''Low Payment Ratio, Merchant Mix Shift''))
   \<and> reasons_text [Num 0, Num 0, Num 0, Num 0, Num 0] = ''None''"
proof -
  have n: "1 < nrows two_customers" by (simp add: two_customers_cols)
  from two_customers_batch_runs obtain out where
    out: "compute_flags no_text two_customers ''Merchant Mix Index'' = Some out" ..
  from two_customers_server_runs(2) obtain out' where
    out': "server_compute_flags no_text no_float two_customers = Some out'" ..
  have f: "flags_at out 1 = Some [Num 0, Num 0, Num 1, Num 0, Num 1]"
    using batch_flags_at [OF wf_two_customers out, of 1] by (simp only: two_customers_batch_flags)
  have f': "flags_at out' 1 = Some [Num 0, Num 0, Num 1, Num 0, Num 1]"
    using server_flags_at [OF wf_two_customers out', of 1]
    by (simp only: two_customers_server_runs(1) two_customers_server_flags option.inject simp_thms ex_simps)
  have r: "reasons_text [Num 0, Num 0, Num 1, Num 0, Num 1] = ''Low Payment Ratio, Merchant Mix Shift''"
    "reasons_text [Num 0, Num 0, Num 0, Num 0, Num 0] = ''None''"
    by (simp_all add: reasons_text_def flag_labels_def)
  from reasons_list_true_flags [OF wf_two_customers n, of no_text out no_float out'] out out' f f' r
  have "row_at out 1 ''reasons'' = Some (Str ''Low Payment Ratio, Merchant Mix Shift'')"
    "row_at out' 1 ''reasons'' = Some (Str ''Low Payment Ratio, Merchant Mix Shift'')"
    by auto
  with wf_two_customers n out out' f f' r(2) show ?thesis by blast
qed

lemma batch_out_col:
  assumes "wf df" "numeric (col_or df ''Merchant Mix Index'' NaN)" "dpd_comparable df"
    "c \<notin> {''risk_score'', ''risk_tier'', ''reasons'', ''target_positive''}"
  shows "out_col (compute_flags p df ''Merchant Mix Index'') c = batch_cols p df c"
proof -
  from batch_run(1) [OF assms(1), of p] assms(2,3) obtain out where
    out: "compute_flags p df ''Merchant Mix Index'' = Some out" by auto
  from batch_run(2) [OF assms(1) out] assms(4) have "get_col out c = batch_cols p df c" by blast
  with out show ?thesis by (simp add: out_col_def)
qed

lemma server_out_col:
  assumes "wf df" "server_mm f df = Some mm" "c \<notin> {''risk_score'', ''risk_tier'', ''reasons''}"
  shows "out_col (server_compute_flags p f df) c = server_cols p df mm c"
proof -
  from server_run(1) [OF assms(1), of p f] assms(2) obtain out where
    out: "server_compute_flags p f df = Some out" by auto
  from server_run(2) [OF assms(1) out] assms(2,3) have "get_col out c = server_cols p df mm c"
    by auto
  with out show ?thesis by (simp add: out_col_def)
qed

lemma server_mm_float:
  "wf df \<Longrightarrow> server_mm f df = map_option rescale (astype_float f (col_or df ''Merchant Mix Index'' NaN))"
proof (cases "get_col df ''Merchant Mix Index''")
  case None
  have "numeric (replicate (nrows df) NaN)" by simp
  then have "astype_float f (replicate (nrows df) NaN) = Some (replicate (nrows df) NaN)"
    by (rule astype_float_numeric)
  moreover have "rescale (replicate (nrows df) NaN) = replicate (nrows df) NaN"
    by (rule rescale_null) (simp add: isnull_all_iff)
  ultimately show ?thesis using None by (simp add: server_mm_def col_or_def)
next
  case (Some m)
  show ?thesis
  proof (cases "isnull_all m")
    case True
    then have "numeric m" by (auto simp: isnull_all_iff numeric_iff)
    then have "astype_float f m = Some m" by (rule astype_float_numeric)
    with True Some show ?thesis
      by (simp add: server_mm_def server_normalize_merchant_mix_cases rescale_null)
  next
    case False
    with Some show ?thesis
      by (simp add: server_mm_def server_normalize_merchant_mix_cases map_option_case)
  qed
qed

lemma wf_missing_ratio: "wf missing_ratio"
  by (simp add: wf_def missing_ratio_def)

lemma missing_ratio_cols:
  "col_or missing_ratio ''Avg Payment Ratio'' NaN = [NaN]"
  "col_or missing_ratio ''Merchant Mix Index'' NaN = [NaN]"
  "get_col missing_ratio ''Merchant Mix Index'' = None"
  "get_col missing_ratio ''Current DPD Bucket'' = None"
  "nrows missing_ratio = 1"
  by (simp_all add: col_or_def get_col_def missing_ratio_def)

text \<open>
  Claim C3, at a table whose one record has no payment ratio. The serving engine fills
  the missing ratio with 0 when it clips the column, so the later fill with 1 finds
  nothing to fill and the flag is set; the batch engine sets the flag as the claim says.
\<close>

theorem server_missing_ratio_sets_flag:
  "out_col (server_compute_flags no_text no_float missing_ratio) ''Avg Payment Ratio'' = Some [Num 0]
   \<and> out_col (server_compute_flags no_text no_float missing_ratio) ''flag_low_pay_ratio'' = Some [Num 1]
   \<and> out_col (compute_flags no_text missing_ratio ''Merchant Mix Index'') ''flag_low_pay_ratio''
       = Some [Num 1]"
proof -
  have mm: "server_mm no_float missing_ratio = Some [NaN]"
    by (simp add: server_mm_def missing_ratio_cols)
  have s: "rescale (snum no_text missing_ratio ''Avg Payment Ratio'') = [NaN]"
    by (simp add: snum_def missing_ratio_cols to_numeric_def rescale_def scaled_def exceeds_def)
  have b: "rescale (bnum no_text missing_ratio ''Avg Payment Ratio'') = [Num 0]"
    by (simp add: bnum_def missing_ratio_cols to_numeric_def fillna_def rescale_def scaled_def
        exceeds_def clip01_def)
  have "out_col (server_compute_flags no_text no_float missing_ratio) ''Avg Payment Ratio'' = Some [Num 0]"
    by (simp add: server_out_col [OF wf_missing_ratio mm] server_cols_def s fillna_def)
  moreover have "out_col (server_compute_flags no_text no_float missing_ratio) ''flag_low_pay_ratio'' = Some [Num 1]"
    by (simp add: server_out_col [OF wf_missing_ratio mm] server_cols_def s fillna_def
        low_pay_ratio_def astype_int_def)
  moreover have "out_col (compute_flags no_text missing_ratio ''Merchant Mix Index'') ''flag_low_pay_ratio''
       = Some [Num 1]"
    by (subst batch_out_col [OF wf_missing_ratio])
       (simp_all add: missing_ratio_cols dpd_comparable_def batch_cols_def b low_pay_ratio_def
          astype_int_def)
  ultimately show ?thesis by blast
qed

lemma unit_cell_iff: "unit_cell c \<longleftrightarrow> c = NaN \<or> (\<exists>x. c = Num x \<and> 0 \<le> x \<and> x \<le> 1)"
  by (cases c) auto

lemma unit_on_num_clip01: "\<not> is_text c \<Longrightarrow> unit_cell (on_num clip01 c)"
  by (cases c) (auto simp: clip01_def)

lemma on_num_null [simp]: "on_num f c = NaN \<longleftrightarrow> c = NaN"
  by (cases c) auto

lemma is_num_on_num [simp]: "is_num (on_num f c) = is_num c"
  by (cases c) auto

lemma is_text_on_num [simp]: "is_text (on_num f c) = is_text c"
  by (cases c) auto

lemma rescale_nth:
  "i < length s \<Longrightarrow>
   rescale s ! i = on_num clip01 (if exceeds s 1.5 then on_num (\<lambda>x. x / 100) (s ! i) else s ! i)"
  by (simp add: rescale_def scaled_def)

lemma unit_rescale_nth: "numeric s \<Longrightarrow> i < length s \<Longrightarrow> unit_cell (rescale s ! i)"
  unfolding rescale_nth by (rule unit_on_num_clip01) (simp add: numeric_iff)

lemma rescale_nth_null: "i < length s \<Longrightarrow> rescale s ! i = NaN \<longleftrightarrow> s ! i = NaN"
  by (simp add: rescale_nth)

lemma is_num_rescale_nth: "i < length s \<Longrightarrow> is_num (rescale s ! i) = is_num (s ! i)"
  by (simp add: rescale_nth)

lemma is_num_coerced: "is_num (if isnull (coerce_cell p c) then Num v else coerce_cell p c)"
  by (cases c) (auto split: option.splits)

lemma is_num_bnum: "wf df \<Longrightarrow> i < nrows df \<Longrightarrow> is_num (bnum p df c ! i)"
  by (simp add: bnum_def fillna_def to_numeric_def length_col_or is_num_coerced)

lemma is_num_fillna: "numeric s \<Longrightarrow> i < length s \<Longrightarrow> is_num (fillna (Num v) s ! i)"
proof -
  assume "numeric s" "i < length s"
  then have "\<not> is_text (s ! i)" by (simp add: numeric_iff)
  with \<open>i < length s\<close> show ?thesis by (cases "s ! i") (simp_all add: fillna_def)
qed

lemma unit_is_num: "unit_cell c \<Longrightarrow> is_num c \<Longrightarrow> \<exists>x. c = Num x \<and> 0 \<le> x \<and> x \<le> 1"
  by (cases c) auto

lemma unit_fillna_zero:
  "i < length s \<Longrightarrow> unit_cell (s ! i) \<Longrightarrow> \<exists>x. fillna (Num 0) s ! i = Num x \<and> 0 \<le> x \<and> x \<le> 1"
  by (cases "s ! i") (simp_all add: fillna_def)

lemma wf_no_merchant_mix: "wf no_merchant_mix"
  by (simp add: wf_def no_merchant_mix_def)

lemma no_merchant_mix_cols:
  "col_or no_merchant_mix ''Merchant Mix Index'' NaN = [NaN]"
  "get_col no_merchant_mix ''Merchant Mix Index'' = None"
  "get_col no_merchant_mix ''Current DPD Bucket'' = None"
  "nrows no_merchant_mix = 1"
  by (simp_all add: col_or_def get_col_def no_merchant_mix_def)

text \<open>
  Claim C4 fails where the merchant mix is missing: with no Merchant Mix Index column the
  normalised value of the record is the missing value, in both engines, and not a number
  of [0, 1].
\<close>

theorem merchant_mix_norm_missing_counterexample:
  "out_col (compute_flags no_text no_merchant_mix ''Merchant Mix Index'') ''MerchantMix_norm''
     = Some [NaN]
   \<and> out_col (server_compute_flags no_text no_float no_merchant_mix) ''MerchantMix_norm''
     = Some [NaN]"
proof -
  have mm: "server_mm no_float no_merchant_mix = Some [NaN]"
    by (simp add: server_mm_def no_merchant_mix_cols)
  have r: "rescale [NaN] = [NaN]"
    by (simp add: rescale_def scaled_def exceeds_def)
  have "out_col (compute_flags no_text no_merchant_mix ''Merchant Mix Index'') ''MerchantMix_norm''
     = Some [NaN]"
    by (subst batch_out_col [OF wf_no_merchant_mix])
       (simp_all add: no_merchant_mix_cols dpd_comparable_def batch_cols_def r)
  moreover have "out_col (server_compute_flags no_text no_float no_merchant_mix) ''MerchantMix_norm''
     = Some [NaN]"
    by (simp add: server_out_col [OF wf_no_merchant_mix mm] server_cols_def)
  ultimately show ?thesis by blast
qed

text \<open>
  Claim C4 as amended. In the result of either engine the normalised payment ratio of
  every record (it is stored in the column Avg Payment Ratio itself) is a number of
  [0, 1], and the normalised merchant mix is either missing or a number of [0, 1]; in
  the batch engine it is missing exactly when the record's Merchant Mix Index is missing
  or the column is absent.
\<close>

theorem normalised_values_in_unit_interval:
  assumes "wf df" and "i < nrows df"
  shows "(compute_flags p df ''Merchant Mix Index'' = Some out \<longrightarrow>
          (\<exists>x. row_at out i ''Avg Payment Ratio'' = Some (Num x) \<and> 0 \<le> x \<and> x \<le> 1)
          \<and> (\<exists>c. row_at out i ''MerchantMix_norm'' = Some c
                \<and> (c = NaN \<or> (\<exists>x. c = Num x \<and> 0 \<le> x \<and> x \<le> 1))
                \<and> (c = NaN \<longleftrightarrow> col_or df ''Merchant Mix Index'' NaN ! i = NaN)))
       \<and> (server_compute_flags p f df = Some out' \<longrightarrow>
          (\<exists>x. row_at out' i ''Avg Payment Ratio'' = Some (Num x) \<and> 0 \<le> x \<and> x \<le> 1)
          \<and> (\<exists>c. row_at out' i ''MerchantMix_norm'' = Some c
                \<and> (c = NaN \<or> (\<exists>x. c = Num x \<and> 0 \<le> x \<and> x \<le> 1))))"
proof (intro conjI impI)
  assume run: "compute_flags p df ''Merchant Mix Index'' = Some out"
  from batch_run(2) [OF assms(1) run] have
    g: "\<And>c. c \<notin> {''risk_score'', ''risk_tier'', ''reasons'', ''target_positive''} \<Longrightarrow>
               get_col out c = batch_cols p df c"
    by blast
  from batch_run(1) [OF assms(1), of p] run have m: "numeric (col_or df ''Merchant Mix Index'' NaN)"
    by simp
  have a: "row_at out i ''Avg Payment Ratio'' = Some (rescale (bnum p df ''Avg Payment Ratio'') ! i)"
    by (simp add: row_at_def g batch_cols_def)
  have i: "i < length (bnum p df ''Avg Payment Ratio'')" using assms by simp
  have "unit_cell (rescale (bnum p df ''Avg Payment Ratio'') ! i)"
    using i by (intro unit_rescale_nth) simp_all
  moreover have "is_num (rescale (bnum p df ''Avg Payment Ratio'') ! i)"
    using i assms by (simp add: is_num_rescale_nth is_num_bnum)
  ultimately show "\<exists>x. row_at out i ''Avg Payment Ratio'' = Some (Num x) \<and> 0 \<le> x \<and> x \<le> 1"
    unfolding a by (auto dest: unit_is_num)
  have b: "row_at out i ''MerchantMix_norm'' = Some (rescale (col_or df ''Merchant Mix Index'' NaN) ! i)"
    by (simp add: row_at_def g batch_cols_def)
  have j: "i < length (col_or df ''Merchant Mix Index'' NaN)" using assms by (simp add: length_col_or)
  from unit_rescale_nth [OF m j] rescale_nth_null [OF j]
  show "\<exists>c. row_at out i ''MerchantMix_norm'' = Some c
                \<and> (c = NaN \<or> (\<exists>x. c = Num x \<and> 0 \<le> x \<and> x \<le> 1))
                \<and> (c = NaN \<longleftrightarrow> col_or df ''Merchant Mix Index'' NaN ! i = NaN)"
    unfolding b by (simp add: unit_cell_iff)
next
  assume run: "server_compute_flags p f df = Some out'"
  from server_run(2) [OF assms(1) run] obtain mm where mm: "server_mm f df = Some mm" and
    g: "\<And>c. c \<notin> {''risk_score'', ''risk_tier'', ''reasons''} \<Longrightarrow>
               get_col out' c = server_cols p df mm c"
    by blast
  have a: "row_at out' i ''Avg Payment Ratio''
      = Some (fillna (Num 0) (rescale (snum p df ''Avg Payment Ratio'')) ! i)"
    by (simp add: row_at_def g server_cols_def)
  have i: "i < length (rescale (snum p df ''Avg Payment Ratio''))" using assms by simp
  have "unit_cell (rescale (snum p df ''Avg Payment Ratio'') ! i)"
    using i by (intro unit_rescale_nth) simp_all
  with i have "\<exists>x. fillna (Num 0) (rescale (snum p df ''Avg Payment Ratio'')) ! i = Num x
      \<and> 0 \<le> x \<and> x \<le> 1"
    by (rule unit_fillna_zero)
  then show "\<exists>x. row_at out' i ''Avg Payment Ratio'' = Some (Num x) \<and> 0 \<le> x \<and> x \<le> 1"
    unfolding a by simp
  have b: "row_at out' i ''MerchantMix_norm'' = Some (mm ! i)"
    by (simp add: row_at_def g server_cols_def)
  from mm obtain m' where m': "astype_float f (col_or df ''Merchant Mix Index'' NaN) = Some m'"
    "mm = rescale m'"
    by (auto simp: server_mm_float [OF assms(1)])
  from astype_float_Some(1,3) [OF m'(1)] assms have "numeric m'" "i < length m'"
    by (simp_all add: length_col_or)
  then have "unit_cell (mm ! i)" unfolding m'(2) by (rule unit_rescale_nth)
  then show "\<exists>c. row_at out' i ''MerchantMix_norm'' = Some c
                \<and> (c = NaN \<or> (\<exists>x. c = Num x \<and> 0 \<le> x \<and> x \<le> 1))"
    unfolding b by (simp add: unit_cell_iff)
qed

theorem normalised_values_in_unit_interval_witness:
  "wf two_customers \<and> 0 < nrows two_customers
   \<and> (\<exists>out. compute_flags no_text two_customers ''Merchant Mix Index'' = Some out
        \<and> (\<exists>x. row_at out 0 ''Avg Payment Ratio'' = Some (Num x) \<and> 0 \<le> x \<and> x \<le> 1)
        \<and> (\<exists>x. row_at out 0 ''MerchantMix_norm'' = Some (Num x) \<and> 0 \<le> x \<and> x \<le> 1))
   \<and> (\<exists>out. server_compute_flags no_text no_float two_customers = Some out
        \<and> (\<exists>x. row_at out 0 ''Avg Payment Ratio'' = Some (Num x) \<and> 0 \<le> x \<and> x \<le> 1))"
proof -
  have n: "0 < nrows two_customers" by (simp add: two_customers_cols)
  from two_customers_batch_runs obtain out where
    out: "compute_flags no_text two_customers ''Merchant Mix Index'' = Some out" ..
  from two_customers_server_runs(2) obtain out' where
    out': "server_compute_flags no_text no_float two_customers = Some out'" ..
  have c: "col_or two_customers ''Merchant Mix Index'' NaN ! 0 \<noteq> NaN"
    by (simp add: two_customers_cols)
  from normalised_values_in_unit_interval [OF wf_two_customers n, of no_text out no_float out']
    out out' c
  show ?thesis using wf_two_customers n by (intro conjI exI [of _ out] exI [of _ out']) auto
qed

lemma other_col:
  assumes "c \<notin> set numeric_cols" "c \<notin> set derived_cols"
  shows "batch_cols p df c = get_col (safe_load_defaults df) c"
    and "server_cols p df mm c = get_col df c"
    and "c \<notin> {''risk_score'', ''risk_tier'', ''reasons'', ''target_positive''}"
    and "c \<notin> {''risk_score'', ''risk_tier'', ''reasons''}"
  using assms
  by (simp_all add: numeric_cols_def derived_cols_def flag_cols_def batch_cols_def server_cols_def)

lemma numeric_col_cases:
  "c \<in> set numeric_cols \<Longrightarrow> c = ''Utilisation %'' \<or> c = ''Avg Payment Ratio''
     \<or> c = ''Min Due Paid Frequency'' \<or> c = ''Cash Withdrawal %'' \<or> c = ''Recent Spend Change %''"
  by (simp add: numeric_cols_def)

lemma batch_numeric_col:
  assumes "c \<in> set numeric_cols" "c \<noteq> ''Avg Payment Ratio''"
  shows "batch_cols p df c = Some (bnum p df c)"
  using numeric_col_cases [OF assms(1)] assms(2) by (auto simp: batch_cols_def)

lemma server_numeric_col:
  assumes "c \<in> set numeric_cols" "c \<noteq> ''Avg Payment Ratio''"
  shows "server_cols p df mm c = Some (snum p df c)"
  using numeric_col_cases [OF assms(1)] assms(2) by (auto simp: server_cols_def)

lemma numeric_not_result:
  "c \<in> set numeric_cols \<Longrightarrow> c \<notin> {''risk_score'', ''risk_tier'', ''reasons'', ''target_positive''}"
  "c \<in> set numeric_cols \<Longrightarrow> c \<notin> {''risk_score'', ''risk_tier'', ''reasons''}"
  by (auto simp: numeric_cols_def)

text \<open>
  Claim C6 fails on the payment ratio: the batch engine overwrites the input column
  Avg Payment Ratio with its normalised value (90 and 30 become 0.9 and 0.3), and the
  result has no column AvgPaymentRatioNorm.
\<close>

theorem payment_ratio_overwritten_counterexample:
  "get_col two_customers ''Avg Payment Ratio'' = Some [Num 90, Num 30]
   \<and> out_col (compute_flags no_text two_customers ''Merchant Mix Index'') ''Avg Payment Ratio''
       = Some [Num 0.9, Num 0.3]
   \<and> out_col (compute_flags no_text two_customers ''Merchant Mix Index'') ''AvgPaymentRatioNorm''
       = None"
proof -
  have 1: "get_col two_customers ''Avg Payment Ratio'' = Some [Num 90, Num 30]"
    by (simp add: get_col_def two_customers_def)
  have r: "rescale (bnum no_text two_customers ''Avg Payment Ratio'') = [Num 0.9, Num 0.3]"
    by (simp add: bnum_def two_customers_cols to_numeric_def fillna_def rescale_def scaled_def
        exceeds_def clip01_def)
  have 2: "out_col (compute_flags no_text two_customers ''Merchant Mix Index'') ''Avg Payment Ratio''
       = Some [Num 0.9, Num 0.3]"
    by (subst batch_out_col [OF wf_two_customers])
       (simp_all add: two_customers_cols dpd_comparable_def batch_cols_def r)
  have "get_col two_customers ''AvgPaymentRatioNorm'' = None"
    by (simp add: get_col_def two_customers_def)
  then have 3: "out_col (compute_flags no_text two_customers ''Merchant Mix Index'') ''AvgPaymentRatioNorm''
       = None"
    by (subst batch_out_col [OF wf_two_customers])
       (simp_all add: two_customers_cols dpd_comparable_def batch_cols_def
          get_col_safe_load_defaults REQUIRED_COLUMNS_def)
  from 1 2 3 show ?thesis by blast
qed

text \<open>
  Claim C6 as amended. The result of either engine has the rows of the input, and every
  input column other than the five numeric columns and the columns that bear the name of
  a derived field is in it unchanged, Merchant Mix Index among them; the normalised
  merchant mix is the separate column MerchantMix_norm. The five numeric columns are
  coerced in place, and Avg Payment Ratio is overwritten in place by its normalised value.
\<close>

theorem output_keeps_other_columns:
  assumes "wf df"
  shows "(compute_flags p df ''Merchant Mix Index'' = Some out \<longrightarrow>
          nrows out = nrows df
          \<and> (\<forall>c s. get_col df c = Some s \<and> c \<notin> set numeric_cols \<and> c \<notin> set derived_cols \<longrightarrow>
                get_col out c = Some s)
          \<and> get_col out ''MerchantMix_norm'' = Some (rescale (col_or df ''Merchant Mix Index'' NaN))
          \<and> get_col out ''Avg Payment Ratio'' = Some (rescale (bnum p df ''Avg Payment Ratio''))
          \<and> (\<forall>c\<in>set numeric_cols. c \<noteq> ''Avg Payment Ratio'' \<longrightarrow>
                get_col out c = Some (bnum p df c)))
       \<and> (server_compute_flags p f df = Some out' \<longrightarrow>
          nrows out' = nrows df
          \<and> (\<forall>c s. get_col df c = Some s \<and> c \<notin> set numeric_cols \<and> c \<notin> set derived_cols \<longrightarrow>
                get_col out' c = Some s)
          \<and> get_col out' ''MerchantMix_norm'' = server_mm f df
          \<and> get_col out' ''Avg Payment Ratio''
               = Some (fillna (Num 0) (rescale (snum p df ''Avg Payment Ratio'')))
          \<and> (\<forall>c\<in>set numeric_cols. c \<noteq> ''Avg Payment Ratio'' \<longrightarrow>
                get_col out' c = Some (snum p df c)))"
proof (intro conjI impI allI ballI)
  assume run: "compute_flags p df ''Merchant Mix Index'' = Some out"
  from batch_run(2) [OF assms run] have n: "nrows out = nrows df" and
    g: "\<And>c. c \<notin> {''risk_score'', ''risk_tier'', ''reasons'', ''target_positive''} \<Longrightarrow>
               get_col out c = batch_cols p df c"
    by blast+
  show "nrows out = nrows df" by (rule n)
  show "get_col out ''MerchantMix_norm'' = Some (rescale (col_or df ''Merchant Mix Index'' NaN))"
    by (simp add: g batch_cols_def)
  show "get_col out ''Avg Payment Ratio'' = Some (rescale (bnum p df ''Avg Payment Ratio''))"
    by (simp add: g batch_cols_def)
  show "get_col out c = Some s"
    if "get_col df c = Some s \<and> c \<notin> set numeric_cols \<and> c \<notin> set derived_cols" for c s
  proof -
    from that have o: "c \<notin> set numeric_cols" "c \<notin> set derived_cols" by simp_all
    from that show ?thesis
      by (simp add: g [OF other_col(3) [OF o]] other_col(1) [OF o] get_col_safe_load_defaults)
  qed
  show "get_col out c = Some (bnum p df c)"
    if "c \<in> set numeric_cols" "c \<noteq> ''Avg Payment Ratio''" for c
    by (simp add: g [OF numeric_not_result(1) [OF that(1)]] batch_numeric_col [OF that])
next
  assume run: "server_compute_flags p f df = Some out'"
  from server_run(2) [OF assms run] obtain mm where mm: "server_mm f df = Some mm" and
    n: "nrows out' = nrows df" and
    g: "\<And>c. c \<notin> {''risk_score'', ''risk_tier'', ''reasons''} \<Longrightarrow>
               get_col out' c = server_cols p df mm c"
    by blast
  show "nrows out' = nrows df" by (rule n)
  show "get_col out' ''MerchantMix_norm'' = server_mm f df"
    by (simp add: g server_cols_def mm)
  show "get_col out' ''Avg Payment Ratio''
               = Some (fillna (Num 0) (rescale (snum p df ''Avg Payment Ratio'')))"
    by (simp add: g server_cols_def)
  show "get_col out' c = Some s"
    if "get_col df c = Some s \<and> c \<notin> set numeric_cols \<and> c \<notin> set derived_cols" for c s
  proof -
    from that have o: "c \<notin> set numeric_cols" "c \<notin> set derived_cols" by simp_all
    from that show ?thesis
      by (simp add: g [OF other_col(4) [OF o]] other_col(2) [OF o])
  qed
  show "get_col out' c = Some (snum p df c)"
    if "c \<in> set numeric_cols" "c \<noteq> ''Avg Payment Ratio''" for c
    by (simp add: g [OF numeric_not_result(2) [OF that(1)]] server_numeric_col [OF that])
qed

theorem output_keeps_other_columns_witness:
  "wf two_customers
   \<and> (\<exists>out. compute_flags no_text two_customers ''Merchant Mix Index'' = Some out
        \<and> get_col out ''Customer ID'' = Some [Str ''C1'', Str ''C2'']
        \<and> get_col out ''Merchant Mix Index'' = Some [Num 0.9, Num 0.2]
        \<and> get_col out ''Utilisation %'' = Some [Num 85, Num 10])
   \<and> (\<exists>out. server_compute_flags no_text no_float two_customers = Some out
        \<and> get_col out ''Customer ID'' = Some [Str ''C1'', Str ''C2'']
        \<and> get_col out ''Merchant Mix Index'' = Some [Num 0.9, Num 0.2]
        \<and> get_col out ''Utilisation %'' = Some [Num 85, Num 10])"
proof -
  from two_customers_batch_runs obtain out where
    out: "compute_flags no_text two_customers ''Merchant Mix Index'' = Some out" ..
  from two_customers_server_runs(2) obtain out' where
    out': "server_compute_flags no_text no_float two_customers = Some out'" ..
  have c: "get_col two_customers ''Customer ID'' = Some [Str ''C1'', Str ''C2'']"
    "get_col two_customers ''Merchant Mix Index'' = Some [Num 0.9, Num 0.2]"
    by (simp_all add: get_col_def two_customers_def)
  have o: "''Customer ID'' \<notin> set numeric_cols \<and> ''Customer ID'' \<notin> set derived_cols"
    "''Merchant Mix Index'' \<notin> set numeric_cols \<and> ''Merchant Mix Index'' \<notin> set derived_cols"
    "''Utilisation %'' \<in> set numeric_cols" "''Utilisation %'' \<noteq> ''Avg Payment Ratio''"
    by (simp_all add: numeric_cols_def derived_cols_def flag_cols_def)
  have u: "bnum no_text two_customers ''Utilisation %'' = [Num 85, Num 10]"
    "snum no_text two_customers ''Utilisation %'' = [Num 85, Num 10]"
    by (simp_all add: bnum_def snum_def two_customers_cols to_numeric_def fillna_def)
  note t = output_keeps_other_columns [OF wf_two_customers, of no_text out no_float out']
  from t [THEN conjunct1] out have tb:
    "nrows out = nrows two_customers
          \<and> (\<forall>c s. get_col two_customers c = Some s \<and> c \<notin> set numeric_cols \<and> c \<notin> set derived_cols \<longrightarrow>
                get_col out c = Some s)
          \<and> get_col out ''MerchantMix_norm'' = Some (rescale (col_or two_customers ''Merchant Mix Index'' NaN))
          \<and> get_col out ''Avg Payment Ratio'' = Some (rescale (bnum no_text two_customers ''Avg Payment Ratio''))
          \<and> (\<forall>c\<in>set numeric_cols. c \<noteq> ''Avg Payment Ratio'' \<longrightarrow>
                get_col out c = Some (bnum no_text two_customers c))"
    by (rule mp)
  note b = tb [THEN conjunct2, THEN conjunct1, rule_format]
  note bn = tb [THEN conjunct2, THEN conjunct2, THEN conjunct2, THEN conjunct2, rule_format]
  from t [THEN conjunct2] out' have ts:
    "nrows out' = nrows two_customers
          \<and> (\<forall>c s. get_col two_customers c = Some s \<and> c \<notin> set numeric_cols \<and> c \<notin> set derived_cols \<longrightarrow>
                get_col out' c = Some s)
          \<and> get_col out' ''MerchantMix_norm'' = server_mm no_float two_customers
          \<and> get_col out' ''Avg Payment Ratio''
               = Some (fillna (Num 0) (rescale (snum no_text two_customers ''Avg Payment Ratio'')))
          \<and> (\<forall>c\<in>set numeric_cols. c \<noteq> ''Avg Payment Ratio'' \<longrightarrow>
                get_col out' c = Some (snum no_text two_customers c))"
    by (rule mp)
  note s = ts [THEN conjunct2, THEN conjunct1, rule_format]
  note sn = ts [THEN conjunct2, THEN conjunct2, THEN conjunct2, THEN conjunct2, rule_format]
  have 1: "get_col out ''Customer ID'' = Some [Str ''C1'', Str ''C2'']"
    by (rule b) (simp only: c o simp_thms)
  have 2: "get_col out ''Merchant Mix Index'' = Some [Num 0.9, Num 0.2]"
    by (rule b) (simp only: c o simp_thms)
  have 3: "get_col out ''Utilisation %'' = Some [Num 85, Num 10]"
    using bn [OF o(3,4)] by (simp only: u)
  have 4: "get_col out' ''Customer ID'' = Some [Str ''C1'', Str ''C2'']"
    by (rule s) (simp only: c o simp_thms)
  have 5: "get_col out' ''Merchant Mix Index'' = Some [Num 0.9, Num 0.2]"
    by (rule s) (simp only: c o simp_thms)
  have 6: "get_col out' ''Utilisation %'' = Some [Num 85, Num 10]"
    using sn [OF o(3,4)] by (simp only: u)
  show ?thesis
    by (intro conjI exI [of _ out] exI [of _ out']) (rule wf_two_customers out out' 1 2 3 4 5 6)+
qed

lemma absent_col:
  assumes "get_col df c = None"
  shows "col_or df c NaN = replicate (nrows df) NaN"
    and "bnum p df c = replicate (nrows df) (Num 0)"
    and "snum p df c = replicate (nrows df) NaN"
    and "fillna (Num 0) (snum p df c) = replicate (nrows df) (Num 0)"
  using assms by (simp_all add: col_or_def bnum_def snum_def to_numeric_def fillna_def)

lemma fillna_replicate_null: "fillna v (replicate n NaN) = replicate n v"
  by (simp add: fillna_def)

lemma util_spike_zero:
  "length spend = n \<Longrightarrow> util_spike (replicate n (Num 0)) spend = replicate n (Num 0)"
  by (rule nth_equalityI) (simp_all add: util_spike_def astype_int_def series_and_def)

lemma cash_advance_zero:
  "length cash = n \<Longrightarrow> cash_advance cash (replicate n (Num 0)) = replicate n (Num 0)"
  by (rule nth_equalityI) (simp_all add: cash_advance_def astype_int_def series_and_def)

lemma list_all_is_num_bnum: "list_all is_num (bnum p df c)"
  by (simp add: bnum_def fillna_def to_numeric_def list_all_length is_num_coerced)

lemma list_all_is_num_rescale: "list_all is_num s \<Longrightarrow> list_all is_num (rescale s)"
  by (simp add: list_all_length is_num_rescale_nth)

lemma bnum_default:
  assumes "wf df" "i < nrows df"
    "col_or df c NaN ! i = NaN \<or> (\<exists>t. col_or df c NaN ! i = Str t \<and> p t = None)"
  shows "bnum p df c ! i = Num 0"
  using assms by (auto simp: bnum_def fillna_def to_numeric_def length_col_or)

lemma rescale_zero: "i < length s \<Longrightarrow> s ! i = Num 0 \<Longrightarrow> rescale s ! i = Num 0"
  by (simp add: rescale_nth clip01_def)

lemma server_mm_defined:
  "wf df \<Longrightarrow> server_mm f df \<noteq> None \<longleftrightarrow> astype_float f (col_or df ''Merchant Mix Index'' NaN) \<noteq> None"
  by (simp add: server_mm_float)

lemma wf_text_merchant_mix: "wf text_merchant_mix"
  by (simp add: wf_def text_merchant_mix_def)

text \<open>
  Claim C10 fails on text in the Merchant Mix Index column, which neither engine coerces:
  with the Utilisation % column absent and the text abc as merchant mix, the batch engine
  raises when it compares the column's maximum with 1.5, and the serving engine raises
  when it converts the column to floats.
\<close>

theorem text_merchant_mix_raises_counterexample:
  "get_col text_merchant_mix ''Utilisation %'' = None
   \<and> compute_flags no_text text_merchant_mix ''Merchant Mix Index'' = None
   \<and> server_compute_flags no_text no_float text_merchant_mix = None"
proof -
  have c: "get_col text_merchant_mix ''Merchant Mix Index'' = Some [Str ''abc'']"
    "get_col text_merchant_mix ''Utilisation %'' = None"
    by (simp_all add: get_col_def text_merchant_mix_def)
  then have "\<not> numeric (col_or text_merchant_mix ''Merchant Mix Index'' NaN)"
    by simp
  with batch_run(1) [OF wf_text_merchant_mix, of no_text]
  have 1: "compute_flags no_text text_merchant_mix ''Merchant Mix Index'' = None" by simp
  have "server_mm no_float text_merchant_mix = None"
    by (simp add: server_mm_def c server_normalize_merchant_mix_cases isnull_all_def
        astype_float_def no_float_def)
  with server_run(1) [OF wf_text_merchant_mix, of no_text no_float]
  have 2: "server_compute_flags no_text no_float text_merchant_mix = None" by simp
  from c(2) 1 2 show ?thesis by (intro conjI)
qed

text \<open>
  Claim C10 as amended. Provided the Merchant Mix Index column holds no text (for the
  serving engine: no text that the conversion to floats rejects) and, in the batch engine,
  the two DPD columns can be compared, the engine returns a table: text and missing
  values in the five numeric columns never raise, and in the batch engine they become
  0.0, so that every cell of these columns is a number. When the Utilisation % column is
  absent it is synthesised (0.0 on every row in the batch engine, missing on every row in
  the serving engine) and \<open>flag_util_spike\<close> and \<open>flag_cash_advance\<close> are 0 on every row.
\<close>

theorem absent_utilisation_no_flags:
  assumes "wf df"
  shows "(numeric (col_or df ''Merchant Mix Index'' NaN) \<and> dpd_comparable df \<longrightarrow>
          (\<exists>out. compute_flags p df ''Merchant Mix Index'' = Some out
             \<and> (\<forall>c\<in>set numeric_cols. \<exists>s. get_col out c = Some s \<and> list_all is_num s)
             \<and> (\<forall>c\<in>set numeric_cols. \<forall>i<nrows df.
                   col_or df c NaN ! i = NaN
                     \<or> (\<exists>t. col_or df c NaN ! i = Str t \<and> p t = None) \<longrightarrow>
                   row_at out i c = Some (Num 0))
             \<and> (get_col df ''Utilisation %'' = None \<longrightarrow>
                   get_col out ''Utilisation %'' = Some (replicate (nrows df) (Num 0))
                 \<and> get_col out ''flag_util_spike'' = Some (replicate (nrows df) (Num 0))
                 \<and> get_col out ''flag_cash_advance'' = Some (replicate (nrows df) (Num 0)))))
       \<and> (astype_float f (col_or df ''Merchant Mix Index'' NaN) \<noteq> None \<longrightarrow>
          (\<exists>out. server_compute_flags p f df = Some out
             \<and> (\<forall>c\<in>set numeric_cols. \<exists>s. get_col out c = Some s \<and> numeric s)
             \<and> (get_col df ''Utilisation %'' = None \<longrightarrow>
                   get_col out ''Utilisation %'' = Some (replicate (nrows df) NaN)
                 \<and> get_col out ''flag_util_spike'' = Some (replicate (nrows df) (Num 0))
                 \<and> get_col out ''flag_cash_advance'' = Some (replicate (nrows df) (Num 0)))))"
proof (intro conjI impI)
  assume "numeric (col_or df ''Merchant Mix Index'' NaN) \<and> dpd_comparable df"
  with batch_run(1) [OF assms, of p] obtain out where
    run: "compute_flags p df ''Merchant Mix Index'' = Some out" by auto
  from batch_run(2) [OF assms run] have
    g: "\<And>c. c \<notin> {''risk_score'', ''risk_tier'', ''reasons'', ''target_positive''} \<Longrightarrow>
               get_col out c = batch_cols p df c"
    by blast
  have apr: "get_col out ''Avg Payment Ratio'' = Some (rescale (bnum p df ''Avg Payment Ratio''))"
    by (simp add: g batch_cols_def)
  have num: "get_col out c = Some (bnum p df c)"
    if "c \<in> set numeric_cols" "c \<noteq> ''Avg Payment Ratio''" for c
    by (simp add: g [OF numeric_not_result(1) [OF that(1)]] batch_numeric_col [OF that])
  have 1: "\<exists>s. get_col out c = Some s \<and> list_all is_num s" if "c \<in> set numeric_cols" for c
  proof (cases "c = ''Avg Payment Ratio''")
    case True
    then show ?thesis by (simp add: apr list_all_is_num_rescale list_all_is_num_bnum)
  next
    case False
    then show ?thesis by (simp add: num [OF that] list_all_is_num_bnum)
  qed
  have 2: "row_at out i c = Some (Num 0)"
    if "c \<in> set numeric_cols" "i < nrows df"
      "col_or df c NaN ! i = NaN \<or> (\<exists>t. col_or df c NaN ! i = Str t \<and> p t = None)" for c i
  proof -
    have z: "bnum p df c ! i = Num 0" using assms that(2,3) by (rule bnum_default)
    show ?thesis
    proof (cases "c = ''Avg Payment Ratio''")
      case True
      have "rescale (bnum p df c) ! i = Num 0"
        using z that(2) assms by (intro rescale_zero) simp_all
      with True show ?thesis by (simp add: row_at_def apr)
    next
      case False
      with z show ?thesis by (simp add: row_at_def num [OF that(1)])
    qed
  qed
  have 3: "get_col out ''Utilisation %'' = Some (replicate (nrows df) (Num 0))
         \<and> get_col out ''flag_util_spike'' = Some (replicate (nrows df) (Num 0))
         \<and> get_col out ''flag_cash_advance'' = Some (replicate (nrows df) (Num 0))"
    if "get_col df ''Utilisation %'' = None"
    using assms
    by (simp add: g batch_cols_def absent_col(2) [OF that] util_spike_zero cash_advance_zero)
  show "\<exists>out. compute_flags p df ''Merchant Mix Index'' = Some out
             \<and> (\<forall>c\<in>set numeric_cols. \<exists>s. get_col out c = Some s \<and> list_all is_num s)
             \<and> (\<forall>c\<in>set numeric_cols. \<forall>i<nrows df.
                   col_or df c NaN ! i = NaN
                     \<or> (\<exists>t. col_or df c NaN ! i = Str t \<and> p t = None) \<longrightarrow>
                   row_at out i c = Some (Num 0))
             \<and> (get_col df ''Utilisation %'' = None \<longrightarrow>
                   get_col out ''Utilisation %'' = Some (replicate (nrows df) (Num 0))
                 \<and> get_col out ''flag_util_spike'' = Some (replicate (nrows df) (Num 0))
                 \<and> get_col out ''flag_cash_advance'' = Some (replicate (nrows df) (Num 0)))"
  proof (intro exI [of _ out] conjI ballI allI impI)
    show "compute_flags p df ''Merchant Mix Index'' = Some out" by (rule run)
    show "\<exists>s. get_col out c = Some s \<and> list_all is_num s" if "c \<in> set numeric_cols" for c
      using that by (rule 1)
    show "row_at out i c = Some (Num 0)"
      if "c \<in> set numeric_cols" "i < nrows df"
      "col_or df c NaN ! i = NaN \<or> (\<exists>t. col_or df c NaN ! i = Str t \<and> p t = None)" for c i
      using that by (rule 2)
    show "get_col out ''Utilisation %'' = Some (replicate (nrows df) (Num 0))"
      "get_col out ''flag_util_spike'' = Some (replicate (nrows df) (Num 0))"
      "get_col out ''flag_cash_advance'' = Some (replicate (nrows df) (Num 0))"
      if "get_col df ''Utilisation %'' = None"
      using 3 [OF that] by simp_all
  qed
next
  assume "astype_float f (col_or df ''Merchant Mix Index'' NaN) \<noteq> None"
  with server_mm_defined [OF assms, of f] obtain mm where mm: "server_mm f df = Some mm" by auto
  with server_run(1) [OF assms, of p f] obtain out where
    run: "server_compute_flags p f df = Some out" by auto
  from server_run(2) [OF assms run] mm have
    g: "\<And>c. c \<notin> {''risk_score'', ''risk_tier'', ''reasons''} \<Longrightarrow>
               get_col out c = server_cols p df mm c"
    by auto
  have apr: "get_col out ''Avg Payment Ratio''
      = Some (fillna (Num 0) (rescale (snum p df ''Avg Payment Ratio'')))"
    by (simp add: g server_cols_def)
  have num: "get_col out c = Some (snum p df c)"
    if "c \<in> set numeric_cols" "c \<noteq> ''Avg Payment Ratio''" for c
    by (simp add: g [OF numeric_not_result(2) [OF that(1)]] server_numeric_col [OF that])
  have 1: "\<exists>s. get_col out c = Some s \<and> numeric s" if "c \<in> set numeric_cols" for c
  proof (cases "c = ''Avg Payment Ratio''")
    case True
    then show ?thesis by (simp add: apr)
  next
    case False
    then show ?thesis by (simp add: num [OF that])
  qed
  have 3: "get_col out ''Utilisation %'' = Some (replicate (nrows df) NaN)
         \<and> get_col out ''flag_util_spike'' = Some (replicate (nrows df) (Num 0))
         \<and> get_col out ''flag_cash_advance'' = Some (replicate (nrows df) (Num 0))"
    if "get_col df ''Utilisation %'' = None"
    using assms
    by (simp add: g server_cols_def absent_col(3) [OF that] fillna_replicate_null
        util_spike_zero cash_advance_zero)
  show "\<exists>out. server_compute_flags p f df = Some out
             \<and> (\<forall>c\<in>set numeric_cols. \<exists>s. get_col out c = Some s \<and> numeric s)
             \<and> (get_col df ''Utilisation %'' = None \<longrightarrow>
                   get_col out ''Utilisation %'' = Some (replicate (nrows df) NaN)
                 \<and> get_col out ''flag_util_spike'' = Some (replicate (nrows df) (Num 0))
                 \<and> get_col out ''flag_cash_advance'' = Some (replicate (nrows df) (Num 0)))"
  proof (intro exI [of _ out] conjI ballI impI)
    show "server_compute_flags p f df = Some out" by (rule run)
    show "\<exists>s. get_col out c = Some s \<and> numeric s" if "c \<in> set numeric_cols" for c
      using that by (rule 1)
    show "get_col out ''Utilisation %'' = Some (replicate (nrows df) NaN)"
      "get_col out ''flag_util_spike'' = Some (replicate (nrows df) (Num 0))"
      "get_col out ''flag_cash_advance'' = Some (replicate (nrows df) (Num 0))"
      if "get_col df ''Utilisation %'' = None"
      using 3 [OF that] by simp_all
  qed
qed

theorem absent_utilisation_no_flags_witness:
  "wf missing_ratio
   \<and> numeric (col_or missing_ratio ''Merchant Mix Index'' NaN) \<and> dpd_comparable missing_ratio
   \<and> astype_float no_float (col_or missing_ratio ''Merchant Mix Index'' NaN) \<noteq> None
   \<and> get_col missing_ratio ''Utilisation %'' = None
   \<and> (\<exists>out. compute_flags no_text missing_ratio ''Merchant Mix Index'' = Some out
        \<and> get_col out ''Utilisation %'' = Some [Num 0]
        \<and> get_col out ''flag_util_spike'' = Some [Num 0]
        \<and> get_col out ''flag_cash_advance'' = Some [Num 0])
   \<and> (\<exists>out. server_compute_flags no_text no_float missing_ratio = Some out
        \<and> get_col out ''Utilisation %'' = Some [NaN]
        \<and> get_col out ''flag_util_spike'' = Some [Num 0]
        \<and> get_col out ''flag_cash_advance'' = Some [Num 0])"
proof -
  have h: "numeric (col_or missing_ratio ''Merchant Mix Index'' NaN) \<and> dpd_comparable missing_ratio"
    by (simp add: missing_ratio_cols dpd_comparable_def)
  have h': "astype_float no_float (col_or missing_ratio ''Merchant Mix Index'' NaN) \<noteq> None"
    by (simp add: missing_ratio_cols astype_float_def)
  have u: "get_col missing_ratio ''Utilisation %'' = None"
    by (simp add: get_col_def missing_ratio_def)
  note t = absent_utilisation_no_flags [OF wf_missing_ratio, of no_text no_float]
  from t [THEN conjunct1, THEN mp, OF h] obtain out where
    out: "compute_flags no_text missing_ratio ''Merchant Mix Index'' = Some out"
    and o: "get_col missing_ratio ''Utilisation %'' = None \<longrightarrow>
                   get_col out ''Utilisation %'' = Some (replicate (nrows missing_ratio) (Num 0))
                 \<and> get_col out ''flag_util_spike'' = Some (replicate (nrows missing_ratio) (Num 0))
                 \<and> get_col out ''flag_cash_advance'' = Some (replicate (nrows missing_ratio) (Num 0))"
    by (elim exE conjE)
  from t [THEN conjunct2, THEN mp, OF h'] obtain out' where
    out': "server_compute_flags no_text no_float missing_ratio = Some out'"
    and o': "get_col missing_ratio ''Utilisation %'' = None \<longrightarrow>
                   get_col out' ''Utilisation %'' = Some (replicate (nrows missing_ratio) NaN)
                 \<and> get_col out' ''flag_util_spike'' = Some (replicate (nrows missing_ratio) (Num 0))
                 \<and> get_col out' ''flag_cash_advance'' = Some (replicate (nrows missing_ratio) (Num 0))"
    by (elim exE conjE)
  from o u have 1: "get_col out ''Utilisation %'' = Some [Num 0]"
    "get_col out ''flag_util_spike'' = Some [Num 0]" "get_col out ''flag_cash_advance'' = Some [Num 0]"
    by (simp_all add: missing_ratio_cols)
  from o' u have 2: "get_col out' ''Utilisation %'' = Some [NaN]"
    "get_col out' ''flag_util_spike'' = Some [Num 0]" "get_col out' ''flag_cash_advance'' = Some [Num 0]"
    by (simp_all add: missing_ratio_cols)
  show ?thesis
    by (intro conjI exI [of _ out] exI [of _ out'])
       (rule wf_missing_ratio h [THEN conjunct1] h [THEN conjunct2] h' u out out' 1 2)+
qed

lemma map_of_filter_fst:
  "map_of (filter (\<lambda>x. fst x \<notin> S) al) c = (if c \<in> S then None else map_of al c)"
  by (induction al) auto

lemma get_col_drop_cols [simp]:
  "get_col (drop_cols df cs) c = (if c \<in> set cs then None else get_col df c)"
  by (simp add: get_col_def drop_cols_def map_of_filter_fst)

lemma nrows_drop_cols [simp]: "nrows (drop_cols df cs) = nrows df"
  by (simp add: drop_cols_def)

lemma wf_drop_cols: "wf df \<Longrightarrow> wf (drop_cols df cs)"
  by (auto simp: wf_def drop_cols_def list_all_iff distinct_map_filter)

lemma series_gt_length: "series_gt a b = Some r \<Longrightarrow> length r = min (length a) (length b)"
proof -
  assume "series_gt a b = Some r"
  then have "map2 cell_gt a b = map Some r" by (simp add: series_gt_def those_eq_Some)
  then have "length (map2 cell_gt a b) = length (map Some r)" by simp
  then show ?thesis by simp
qed

lemma target_positive_wf:
  assumes "wf d" "target_positive d = Some out"
  shows "wf out"
proof -
  from assms(2) obtain nxt where nxt: "get_col d ''DPD Bucket Next Month'' = Some nxt"
    by (auto simp: target_positive_def bind_eq_Some_conv)
  have ln: "length nxt = nrows d" using assms(1) nxt by (rule wf_length)
  have ne: "wf (set_col d ''target_positive'' (astype_int (series_ne (fillna (Num 0) nxt) (Num 0))))"
    by (rule wf_set_col [OF assms(1)]) (simp add: series_ne_def ln)
  show ?thesis
  proof (cases "get_col d ''Current DPD Bucket''")
    case None
    with assms(2) nxt ne show ?thesis by (simp add: target_positive_def)
  next
    case (Some cur)
    have lc: "length cur = nrows d" using assms(1) Some by (rule wf_length)
    show ?thesis
    proof (cases "isnull_all cur")
      case True
      with assms(2) nxt Some ne show ?thesis by (simp add: target_positive_def)
    next
      case False
      with assms(2) nxt Some obtain b where
        b: "series_gt (fillna (Num 0) nxt) (fillna (Num 0) cur) = Some b"
        "out = set_col d ''target_positive'' (astype_int b)"
        by (auto simp: target_positive_def bind_eq_Some_conv)
      from series_gt_length [OF b(1)] ln lc have "length (astype_int b) = nrows d" by simp
      with assms(1) show ?thesis unfolding b(2) by (rule wf_set_col)
    qed
  qed
qed

lemma batch_run_wf:
  assumes w: "wf df" and run: "compute_flags p df ''Merchant Mix Index'' = Some out"
  shows "wf out"
proof -
  from batch_flags [OF w, of p] obtain d where
    d: "wf d" "nrows d = nrows df" "get_col d = batch_cols p df"
     "compute_flags p df ''Merchant Mix Index'' =
        (if numeric (col_or df ''Merchant Mix Index'' NaN)
         then do { d' \<leftarrow> score_and_reasons d; target_positive d' } else None)"
    by (elim exE conjE)
  have "bool_col d c" if "c \<in> set flag_cols" for c
    using w d(3,2) that by (rule batch_cols_bool)
  from score_and_reasons_flags [OF d(1) this] obtain d' where
    d': "score_and_reasons d = Some d'" "wf d'"
    by blast
  from run have "target_positive d' = Some out"
    by (simp add: d(4) d'(1) split: if_splits)
  with d'(2) show ?thesis by (rule target_positive_wf)
qed

lemma server_run_wf:
  assumes w: "wf df" and run: "server_compute_flags p f df = Some out"
  shows "wf out"
proof -
  from server_run(1) [OF w, of p f] run obtain mm where mm: "server_mm f df = Some mm" by auto
  from server_flags(2) [OF w mm, of p] obtain d where
    d: "wf d" "nrows d = nrows df" "get_col d = server_cols p df mm"
      "server_compute_flags p f df = score_and_reasons d"
    by (elim exE conjE)
  have "bool_col d c" if "c \<in> set flag_cols" for c
    using w d(3,2) server_mm_result(2) [OF w mm] that by (rule server_cols_bool)
  from score_and_reasons_flags [OF d(1) this] obtain d' where
    d': "score_and_reasons d = Some d'" "wf d'"
    by blast
  with run d(4) show ?thesis by simp
qed

lemma coerce_is_num: "is_num c \<Longrightarrow> coerce_cell p c = c"
  by (cases c) auto

lemma coerce_not_text: "\<not> is_text c \<Longrightarrow> coerce_cell p c = c"
  by (cases c) auto

lemma to_numeric_numeric: "numeric s \<Longrightarrow> to_numeric p s = s"
  by (simp add: to_numeric_def numeric_iff map_idI coerce_not_text)

lemma fillna_is_num: "list_all is_num s \<Longrightarrow> fillna v s = s"
proof -
  assume a: "list_all is_num s"
  have "(if isnull c then v else c) = c" if "c \<in> set s" for c
    by (cases c) (use that a in \<open>auto simp: list_all_iff\<close>)
  then show ?thesis by (simp add: fillna_def map_idI)
qed

lemma numeric_is_num: "list_all is_num s \<Longrightarrow> numeric s"
proof -
  assume a: "list_all is_num s"
  have "\<not> is_text c" if "c \<in> set s" for c
    by (cases c) (use that a in \<open>auto simp: list_all_iff\<close>)
  then show ?thesis by (simp add: numeric_iff)
qed

lemma bnum_fixed: "list_all is_num s \<Longrightarrow> fillna (Num 0) (to_numeric p s) = s"
  by (simp add: to_numeric_numeric numeric_is_num fillna_is_num)

lemma unit_rescale_fixed:
  assumes "\<forall>c\<in>set t. unit_cell c"
  shows "rescale t = t"
proof -
  have "\<not> exceeds t 1.5"
  proof
    assume "exceeds t 1.5"
    then obtain x where x: "Num x \<in> set t" "1.5 < x" by (auto simp: exceeds_iff)
    with assms have "unit_cell (Num x)" by blast
    with x(2) show False by simp
  qed
  moreover have "on_num clip01 c = c" if "c \<in> set t" for c
  proof -
    from assms that have "unit_cell c" by blast
    then show ?thesis by (cases c) (auto simp: clip01_def)
  qed
  ultimately show ?thesis by (simp add: rescale_def scaled_def map_idI)
qed

lemma unit_rescale: "numeric s \<Longrightarrow> \<forall>c\<in>set (rescale s). unit_cell c"
proof
  fix c assume n: "numeric s" and "c \<in> set (rescale s)"
  then obtain i where "i < length s" "rescale s ! i = c" by (auto simp: in_set_conv_nth)
  with unit_rescale_nth [OF n this(1)] show "unit_cell c" by simp
qed

lemma rescale_idem: "numeric s \<Longrightarrow> rescale (rescale s) = rescale s"
  by (rule unit_rescale_fixed) (rule unit_rescale)

lemma unit_fillna: "\<forall>c\<in>set s. unit_cell c \<Longrightarrow> \<forall>c\<in>set (fillna (Num 0) s). unit_cell c"
  by (auto simp: fillna_def)

lemma is_num_fillna_all: "numeric s \<Longrightarrow> list_all is_num (fillna (Num v) s)"
  by (simp add: list_all_length is_num_fillna)

lemma input_cols_numeric: "c \<in> set numeric_cols \<Longrightarrow> c \<in> set input_cols"
  by (simp add: input_cols_def)

lemma input_cols_mem:
  "''Merchant Mix Index'' \<in> set input_cols" "''DPD Bucket Next Month'' \<in> set input_cols"
  "''Current DPD Bucket'' \<in> set input_cols" "''Avg Payment Ratio'' \<in> set input_cols"
  by (simp_all add: input_cols_def numeric_cols_def)

lemma input_not_derived: "c \<in> set input_cols \<Longrightarrow> c \<notin> set derived_cols"
  by (auto simp: input_cols_def numeric_cols_def derived_cols_def flag_cols_def)

lemma numeric_cols_mem:
  "''Avg Payment Ratio'' \<in> set numeric_cols"
  "''Utilisation %'' \<in> set numeric_cols" "''Min Due Paid Frequency'' \<in> set numeric_cols"
  "''Cash Withdrawal %'' \<in> set numeric_cols" "''Recent Spend Change %'' \<in> set numeric_cols"
  by (simp_all add: numeric_cols_def)

lemma flag_not_result:
  "c \<in> set flag_cols \<Longrightarrow> c \<notin> {''risk_score'', ''risk_tier'', ''reasons'', ''target_positive''}"
  "c \<in> set flag_cols \<Longrightarrow> c \<notin> {''risk_score'', ''risk_tier'', ''reasons''}"
  by (auto simp: flag_cols_def)

lemma batch_flag_cols_cong:
  assumes "\<And>c. c \<in> set numeric_cols \<Longrightarrow> c \<noteq> ''Avg Payment Ratio'' \<Longrightarrow> bnum p a c = bnum p b c"
    and "rescale (bnum p a ''Avg Payment Ratio'') = rescale (bnum p b ''Avg Payment Ratio'')"
    and "col_or a ''Merchant Mix Index'' NaN = col_or b ''Merchant Mix Index'' NaN"
    and "c \<in> set flag_cols"
  shows "batch_cols p a c = batch_cols p b c"
proof -
  have n: "bnum p a ''Utilisation %'' = bnum p b ''Utilisation %''"
    "bnum p a ''Min Due Paid Frequency'' = bnum p b ''Min Due Paid Frequency''"
    "bnum p a ''Cash Withdrawal %'' = bnum p b ''Cash Withdrawal %''"
    "bnum p a ''Recent Spend Change %'' = bnum p b ''Recent Spend Change %''"
    by (rule assms(1), simp add: numeric_cols_def, simp)+
  from flag_cols_cases [OF assms(4)] show ?thesis
    by (elim disjE) (simp_all add: batch_cols_def n assms(2,3))
qed

lemma server_flag_cols_cong:
  assumes "\<And>c. c \<in> set numeric_cols \<Longrightarrow> c \<noteq> ''Avg Payment Ratio'' \<Longrightarrow> snum p a c = snum p b c"
    and "fillna (Num 0) (rescale (snum p a ''Avg Payment Ratio''))
       = fillna (Num 0) (rescale (snum p b ''Avg Payment Ratio''))"
    and "c \<in> set flag_cols"
  shows "server_cols p a mm c = server_cols p b mm c"
proof -
  have n: "snum p a ''Utilisation %'' = snum p b ''Utilisation %''"
    "snum p a ''Min Due Paid Frequency'' = snum p b ''Min Due Paid Frequency''"
    "snum p a ''Cash Withdrawal %'' = snum p b ''Cash Withdrawal %''"
    "snum p a ''Recent Spend Change %'' = snum p b ''Recent Spend Change %''"
    by (rule assms(1), simp add: numeric_cols_def, simp)+
  from flag_cols_cases [OF assms(3)] show ?thesis
    by (elim disjE) (simp_all add: server_cols_def n assms(2))
qed

lemma batch_rerun:
  assumes w: "wf df" and run: "compute_flags p df ''Merchant Mix Index'' = Some out"
    and w2: "wf df2" and n2: "nrows df2 = nrows out"
    and inp: "\<And>c. c \<in> set input_cols \<Longrightarrow> get_col df2 c = get_col out c"
  shows "\<exists>out2. compute_flags p df2 ''Merchant Mix Index'' = Some out2 \<and> nrows out2 = nrows out
           \<and> (\<forall>c\<in>set flag_cols. get_col out2 c = get_col out c)"
proof -
  from batch_run(2) [OF w run] have n: "nrows out = nrows df" and
    g: "\<And>c. c \<notin> {''risk_score'', ''risk_tier'', ''reasons'', ''target_positive''} \<Longrightarrow>
               get_col out c = batch_cols p df c"
    by blast+
  from batch_run(1) [OF w, of p] run have ok: "numeric (col_or df ''Merchant Mix Index'' NaN)"
    "dpd_comparable df" by simp_all
  have o_num: "get_col df2 c = Some (bnum p df c)"
    if "c \<in> set numeric_cols" "c \<noteq> ''Avg Payment Ratio''" for c
    by (simp add: inp [OF input_cols_numeric [OF that(1)]]
        g [OF numeric_not_result(1) [OF that(1)]] batch_numeric_col [OF that])
  have o_apr: "get_col df2 ''Avg Payment Ratio'' = Some (rescale (bnum p df ''Avg Payment Ratio''))"
    by (simp add: inp [OF input_cols_mem(4)] g batch_cols_def)
  have o_mmi: "get_col df2 ''Merchant Mix Index'' = Some (col_or df ''Merchant Mix Index'' NaN)"
    by (simp add: inp [OF input_cols_mem(1)] g batch_cols_def get_col_sld_required REQUIRED_COLUMNS_def)
  have o_nxt: "get_col df2 ''DPD Bucket Next Month'' = Some (col_or df ''DPD Bucket Next Month'' NaN)"
    by (simp add: inp [OF input_cols_mem(2)] g batch_cols_def get_col_sld_required REQUIRED_COLUMNS_def)
  have o_cur: "get_col df2 ''Current DPD Bucket'' = get_col df ''Current DPD Bucket''"
    by (simp add: inp [OF input_cols_mem(3)] g batch_cols_def get_col_safe_load_defaults
        REQUIRED_COLUMNS_def split: option.splits)
  have b_num: "bnum p df2 c = bnum p df c"
    if "c \<in> set numeric_cols" "c \<noteq> ''Avg Payment Ratio''" for c
    by (simp add: bnum_def [of p df2] o_num [OF that] bnum_fixed list_all_is_num_bnum)
  have "bnum p df2 ''Avg Payment Ratio'' = rescale (bnum p df ''Avg Payment Ratio'')"
    by (simp add: bnum_def [of p df2] o_apr bnum_fixed list_all_is_num_rescale list_all_is_num_bnum)
  then have b_apr: "rescale (bnum p df2 ''Avg Payment Ratio'') = rescale (bnum p df ''Avg Payment Ratio'')"
    by (simp add: rescale_idem)
  have b_mmi: "col_or df2 ''Merchant Mix Index'' NaN = col_or df ''Merchant Mix Index'' NaN"
    by (simp add: o_mmi)
  have "col_or df2 ''DPD Bucket Next Month'' NaN = col_or df ''DPD Bucket Next Month'' NaN"
    by (simp add: o_nxt)
  then have "dpd_comparable df2 = dpd_comparable df"
    by (simp add: dpd_comparable_def o_cur split: option.splits)
  with batch_run(1) [OF w2, of p] ok b_mmi obtain out2 where
    run2: "compute_flags p df2 ''Merchant Mix Index'' = Some out2" by auto
  from batch_run(2) [OF w2 run2] have n3: "nrows out2 = nrows df2" and
    g2: "\<And>c. c \<notin> {''risk_score'', ''risk_tier'', ''reasons'', ''target_positive''} \<Longrightarrow>
               get_col out2 c = batch_cols p df2 c"
    by blast+
  have "get_col out2 c = get_col out c" if "c \<in> set flag_cols" for c
    using batch_flag_cols_cong [of p df2 df c, OF b_num b_apr b_mmi that]
    by (simp add: g2 [OF flag_not_result(1) [OF that]] g [OF flag_not_result(1) [OF that]])
  with run2 n3 n2 show ?thesis by (intro exI [of _ out2]) simp
qed

lemma server_rerun:
  assumes w: "wf df" and run: "server_compute_flags p f df = Some out"
    and w2: "wf df2" and n2: "nrows df2 = nrows out"
    and inp: "\<And>c. c \<in> set input_cols \<Longrightarrow> get_col df2 c = get_col out c"
  shows "\<exists>out2. server_compute_flags p f df2 = Some out2 \<and> nrows out2 = nrows out
           \<and> (\<forall>c\<in>set flag_cols. get_col out2 c = get_col out c)"
proof -
  from server_run(2) [OF w run] obtain mm where mm: "server_mm f df = Some mm" and
    n: "nrows out = nrows df" and
    g: "\<And>c. c \<notin> {''risk_score'', ''risk_tier'', ''reasons''} \<Longrightarrow>
               get_col out c = server_cols p df mm c"
    by blast
  let ?A = "fillna (Num 0) (rescale (snum p df ''Avg Payment Ratio''))"
  have o_num: "get_col df2 c = Some (snum p df c)"
    if "c \<in> set numeric_cols" "c \<noteq> ''Avg Payment Ratio''" for c
    by (simp add: inp [OF input_cols_numeric [OF that(1)]]
        g [OF numeric_not_result(2) [OF that(1)]] server_numeric_col [OF that])
  have o_apr: "get_col df2 ''Avg Payment Ratio'' = Some ?A"
    by (simp add: inp [OF input_cols_mem(4)] g server_cols_def)
  have o_mmi: "get_col df2 ''Merchant Mix Index'' = get_col df ''Merchant Mix Index''"
    by (simp add: inp [OF input_cols_mem(1)] g server_cols_def)
  have s_num: "snum p df2 c = snum p df c"
    if "c \<in> set numeric_cols" "c \<noteq> ''Avg Payment Ratio''" for c
    by (simp add: snum_def [of p df2] o_num [OF that] to_numeric_numeric)
  have nA: "list_all is_num ?A" by (rule is_num_fillna_all) simp
  have uA: "\<forall>c\<in>set ?A. unit_cell c" by (rule unit_fillna) (rule unit_rescale, simp)
  have "snum p df2 ''Avg Payment Ratio'' = ?A"
    by (simp add: snum_def [of p df2] o_apr to_numeric_numeric)
  then have s_apr: "fillna (Num 0) (rescale (snum p df2 ''Avg Payment Ratio'')) = ?A"
    by (simp only: unit_rescale_fixed [OF uA] fillna_is_num [OF nA])
  have "server_mm f df2 = server_mm f df"
    by (simp add: server_mm_def o_mmi n2 n split: option.splits)
  with server_run(1) [OF w2, of p f] mm obtain out2 where
    run2: "server_compute_flags p f df2 = Some out2" by auto
  from server_run(2) [OF w2 run2] \<open>server_mm f df2 = server_mm f df\<close> mm
  have n3: "nrows out2 = nrows df2" and
    g2: "\<And>c. c \<notin> {''risk_score'', ''risk_tier'', ''reasons''} \<Longrightarrow>
               get_col out2 c = server_cols p df2 mm c"
    by auto
  have "get_col out2 c = get_col out c" if "c \<in> set flag_cols" for c
    using server_flag_cols_cong [of p df2 df c mm, OF s_num s_apr that]
    by (simp add: g2 [OF flag_not_result(2) [OF that]] g [OF flag_not_result(2) [OF that]])
  with run2 n3 n2 show ?thesis by (intro exI [of _ out2]) simp
qed

text \<open>
  Claim C7. The engines are idempotent on the flags: when a run on a table returns, a
  second run on the returned table, with the derived columns removed or left in place,
  returns as well, and each of its five flag columns is the flag column of the first run.
\<close>

theorem flags_idempotent:
  assumes "wf df"
  shows "(compute_flags p df ''Merchant Mix Index'' = Some out \<longrightarrow>
          (\<exists>out2. compute_flags p (drop_cols out derived_cols) ''Merchant Mix Index'' = Some out2
             \<and> nrows out2 = nrows out
             \<and> (\<forall>c\<in>set flag_cols. get_col out2 c = get_col out c))
          \<and> (\<exists>out2. compute_flags p out ''Merchant Mix Index'' = Some out2
             \<and> nrows out2 = nrows out
             \<and> (\<forall>c\<in>set flag_cols. get_col out2 c = get_col out c)))
       \<and> (server_compute_flags p f df = Some out' \<longrightarrow>
          (\<exists>out2. server_compute_flags p f (drop_cols out' derived_cols) = Some out2
             \<and> nrows out2 = nrows out'
             \<and> (\<forall>c\<in>set flag_cols. get_col out2 c = get_col out' c))
          \<and> (\<exists>out2. server_compute_flags p f out' = Some out2
             \<and> nrows out2 = nrows out'
             \<and> (\<forall>c\<in>set flag_cols. get_col out2 c = get_col out' c)))"
proof (intro conjI impI)
  assume run: "compute_flags p df ''Merchant Mix Index'' = Some out"
  have wo: "wf out" using assms run by (rule batch_run_wf)
  show "\<exists>out2. compute_flags p (drop_cols out derived_cols) ''Merchant Mix Index'' = Some out2
             \<and> nrows out2 = nrows out
             \<and> (\<forall>c\<in>set flag_cols. get_col out2 c = get_col out c)"
    using assms run
    by (rule batch_rerun) (simp_all add: wf_drop_cols wo input_not_derived)
  show "\<exists>out2. compute_flags p out ''Merchant Mix Index'' = Some out2
             \<and> nrows out2 = nrows out
             \<and> (\<forall>c\<in>set flag_cols. get_col out2 c = get_col out c)"
    using assms run by (rule batch_rerun) (simp_all add: wo)
next
  assume run: "server_compute_flags p f df = Some out'"
  have wo: "wf out'" using assms run by (rule server_run_wf)
  show "\<exists>out2. server_compute_flags p f (drop_cols out' derived_cols) = Some out2
             \<and> nrows out2 = nrows out'
             \<and> (\<forall>c\<in>set flag_cols. get_col out2 c = get_col out' c)"
    using assms run
    by (rule server_rerun) (simp_all add: wf_drop_cols wo input_not_derived)
  show "\<exists>out2. server_compute_flags p f out' = Some out2
             \<and> nrows out2 = nrows out'
             \<and> (\<forall>c\<in>set flag_cols. get_col out2 c = get_col out' c)"
    using assms run by (rule server_rerun) (simp_all add: wo)
qed

theorem flags_idempotent_witness:
  "wf two_customers
   \<and> (\<exists>out out2. compute_flags no_text two_customers ''Merchant Mix Index'' = Some out
        \<and> compute_flags no_text (drop_cols out derived_cols) ''Merchant Mix Index'' = Some out2
        \<and> get_col out ''flag_low_pay_ratio'' = Some [Num 0, Num 1]
        \<and> get_col out2 ''flag_low_pay_ratio'' = Some [Num 0, Num 1])
   \<and> (\<exists>out out2. server_compute_flags no_text no_float two_customers = Some out
        \<and> server_compute_flags no_text no_float out = Some out2
        \<and> get_col out ''flag_low_pay_ratio'' = Some [Num 0, Num 1]
        \<and> get_col out2 ''flag_low_pay_ratio'' = Some [Num 0, Num 1])"
proof -
  from two_customers_batch_runs obtain out where
    out: "compute_flags no_text two_customers ''Merchant Mix Index'' = Some out" ..
  from two_customers_server_runs(2) obtain out' where
    out': "server_compute_flags no_text no_float two_customers = Some out'" ..
  have l: "''flag_low_pay_ratio'' \<in> set flag_cols" by (simp add: flag_cols_def)
  have r: "rescale (bnum no_text two_customers ''Avg Payment Ratio'') = [Num 0.9, Num 0.3]"
    "fillna (Num 1) (fillna (Num 0) (rescale (snum no_text two_customers ''Avg Payment Ratio'')))
       = [Num 0.9, Num 0.3]"
    by (simp_all add: bnum_def snum_def two_customers_cols to_numeric_def fillna_def rescale_def
        scaled_def exceeds_def clip01_def)
  from batch_run(2) [OF wf_two_customers out]
  have "get_col out ''flag_low_pay_ratio'' = batch_cols no_text two_customers ''flag_low_pay_ratio''"
    by simp
  then have 1: "get_col out ''flag_low_pay_ratio'' = Some [Num 0, Num 1]"
    by (simp add: batch_cols_def r low_pay_ratio_def astype_int_def)
  from server_run(2) [OF wf_two_customers out'] two_customers_server_runs(1)
  have "get_col out' ''flag_low_pay_ratio''
      = server_cols no_text two_customers [Num 0.9, Num 0.2] ''flag_low_pay_ratio''"
    by auto
  then have 2: "get_col out' ''flag_low_pay_ratio'' = Some [Num 0, Num 1]"
    by (simp add: server_cols_def r low_pay_ratio_def astype_int_def)
  note t = flags_idempotent [OF wf_two_customers, of no_text out no_float out']
  from t [THEN conjunct1, THEN mp, OF out, THEN conjunct1] obtain out2 where
    out2: "compute_flags no_text (drop_cols out derived_cols) ''Merchant Mix Index'' = Some out2"
    and e: "\<forall>c\<in>set flag_cols. get_col out2 c = get_col out c"
    by (elim exE conjE)
  from t [THEN conjunct2, THEN mp, OF out', THEN conjunct2] obtain out3 where
    out3: "server_compute_flags no_text no_float out' = Some out3"
    and e': "\<forall>c\<in>set flag_cols. get_col out3 c = get_col out' c"
    by (elim exE conjE)
  from e l 1 have 3: "get_col out2 ''flag_low_pay_ratio'' = Some [Num 0, Num 1]" by simp
  from e' l 2 have 4: "get_col out3 ''flag_low_pay_ratio'' = Some [Num 0, Num 1]" by simp
  show ?thesis
    by (intro conjI exI [of _ out] exI [of _ out2] exI [of _ out'] exI [of _ out3])
       (rule wf_two_customers out out2 out' out3 1 2 3 4)+
qed

lemma map_of_append_cols:
  "map_of (map (\<lambda>x. (fst x, snd x @ g (fst x))) al) c = map_option (\<lambda>s. s @ g c) (map_of al c)"
  by (induction al) auto

lemma get_col_append_rows:
  "get_col (append_rows df extra) c = map_option (\<lambda>s. s @ col_or extra c NaN) (get_col df c)"
  by (simp add: get_col_def append_rows_def
      map_of_append_cols [of "\<lambda>c. col_or extra c NaN"])

lemma nrows_append_rows [simp]: "nrows (append_rows df extra) = nrows df + nrows extra"
  by (simp add: append_rows_def)

lemma wf_append_rows: "wf df \<Longrightarrow> wf extra \<Longrightarrow> wf (append_rows df extra)"
  by (auto simp: wf_def append_rows_def list_all_iff comp_def length_col_or [unfolded wf_def])

lemma col_or_append_rows:
  "col_or (append_rows df extra) c NaN = col_or df c NaN @ appended df extra c"
  by (cases "get_col df c")
     (simp_all add: col_or_def [of "append_rows df extra"] col_or_def [of df] get_col_append_rows
        appended_def replicate_add)

lemma bnum_append_rows:
  "bnum p (append_rows df extra) c = bnum p df c @ fillna (Num 0) (to_numeric p (appended df extra c))"
  by (simp add: bnum_def col_or_append_rows fillna_def to_numeric_def)

lemma snum_append_rows:
  "snum p (append_rows df extra) c = snum p df c @ to_numeric p (appended df extra c)"
  by (simp add: snum_def col_or_append_rows to_numeric_def)

lemma fillna_append: "fillna v (a @ b) = fillna v a @ fillna v b"
  by (simp add: fillna_def)

lemma util_spike_nth:
  "i < length util \<Longrightarrow> i < length spend \<Longrightarrow>
   util_spike util spend ! i = flag_cell (holds GE 80 (util ! i) \<and> holds GE 20 (spend ! i))"
  by (simp add: util_spike_def astype_int_def series_and_def flag_cell_def)

lemma min_due_streak_nth:
  "i < length freq \<Longrightarrow> min_due_streak freq ! i = flag_cell (holds GE 2 (freq ! i))"
  by (simp add: min_due_streak_def astype_int_def flag_cell_def)

lemma low_pay_ratio_nth:
  "i < length apr \<Longrightarrow> low_pay_ratio apr ! i = flag_cell (holds LE 0.4 (apr ! i))"
  by (simp add: low_pay_ratio_def astype_int_def flag_cell_def)

lemma cash_advance_nth:
  "i < length cash \<Longrightarrow> i < length util \<Longrightarrow>
   cash_advance cash util ! i = flag_cell (holds GT 0 (cash ! i) \<and> holds GT 70 (util ! i))"
  by (simp add: cash_advance_def astype_int_def series_and_def flag_cell_def)

lemma merchant_shift_nth:
  "i < length mm \<Longrightarrow> merchant_shift mm ! i = flag_cell (holds LE 0.35 (mm ! i))"
  by (simp add: merchant_shift_def astype_int_def flag_cell_def)

lemma rescale_append_nth:
  "i < length a \<Longrightarrow> exceeds (a @ b) 1.5 = exceeds a 1.5 \<Longrightarrow> rescale (a @ b) ! i = rescale a ! i"
  by (simp add: rescale_nth nth_append)

lemma util_spike_append:
  "i < length u \<Longrightarrow> i < length s \<Longrightarrow> util_spike (u @ u') (s @ s') ! i = util_spike u s ! i"
  by (simp add: util_spike_nth nth_append)

lemma min_due_streak_append: "i < length a \<Longrightarrow> min_due_streak (a @ b) ! i = min_due_streak a ! i"
  by (simp add: min_due_streak_nth nth_append)

lemma cash_advance_append:
  "i < length c \<Longrightarrow> i < length u \<Longrightarrow> cash_advance (c @ c') (u @ u') ! i = cash_advance c u ! i"
  by (simp add: cash_advance_nth nth_append)

lemma low_pay_ratio_cong: "i < length a \<Longrightarrow> i < length b \<Longrightarrow> a ! i = b ! i \<Longrightarrow>
  low_pay_ratio a ! i = low_pay_ratio b ! i"
  by (simp add: low_pay_ratio_nth)

lemma merchant_shift_cong: "i < length a \<Longrightarrow> i < length b \<Longrightarrow> a ! i = b ! i \<Longrightarrow>
  merchant_shift a ! i = merchant_shift b ! i"
  by (simp add: merchant_shift_nth)

lemma batch_flag_cells:
  assumes "wf df" "compute_flags p df ''Merchant Mix Index'' = Some out"
  shows "row_at out i ''flag_util_spike''
           = Some (util_spike (bnum p df ''Utilisation %'') (bnum p df ''Recent Spend Change %'') ! i)"
    and "row_at out i ''flag_min_due_streak''
           = Some (min_due_streak (bnum p df ''Min Due Paid Frequency'') ! i)"
    and "row_at out i ''flag_low_pay_ratio''
           = Some (low_pay_ratio (rescale (bnum p df ''Avg Payment Ratio'')) ! i)"
    and "row_at out i ''flag_cash_advance''
           = Some (cash_advance (bnum p df ''Cash Withdrawal %'') (bnum p df ''Utilisation %'') ! i)"
    and "row_at out i ''flag_merchant_shift''
           = Some (merchant_shift (rescale (col_or df ''Merchant Mix Index'' NaN)) ! i)"
proof -
  from batch_run(2) [OF assms] have
    g: "\<And>c. c \<notin> {''risk_score'', ''risk_tier'', ''reasons'', ''target_positive''} \<Longrightarrow>
               get_col out c = batch_cols p df c"
    by blast
  show "row_at out i ''flag_util_spike''
           = Some (util_spike (bnum p df ''Utilisation %'') (bnum p df ''Recent Spend Change %'') ! i)"
    by (simp add: row_at_def g batch_cols_def)
  show "row_at out i ''flag_min_due_streak''
           = Some (min_due_streak (bnum p df ''Min Due Paid Frequency'') ! i)"
    by (simp add: row_at_def g batch_cols_def)
  show "row_at out i ''flag_low_pay_ratio''
           = Some (low_pay_ratio (rescale (bnum p df ''Avg Payment Ratio'')) ! i)"
    by (simp add: row_at_def g batch_cols_def)
  show "row_at out i ''flag_cash_advance''
           = Some (cash_advance (bnum p df ''Cash Withdrawal %'') (bnum p df ''Utilisation %'') ! i)"
    by (simp add: row_at_def g batch_cols_def)
  show "row_at out i ''flag_merchant_shift''
           = Some (merchant_shift (rescale (col_or df ''Merchant Mix Index'' NaN)) ! i)"
    by (simp add: row_at_def g batch_cols_def)
qed

lemma flags_at_rows:
  "flags_at out i = those [row_at out i ''flag_util_spike'', row_at out i ''flag_min_due_streak'',
     row_at out i ''flag_low_pay_ratio'', row_at out i ''flag_cash_advance'',
     row_at out i ''flag_merchant_shift'']"
  by (simp add: flags_at_def flag_cols_def)

lemma scored_same_flags:
  assumes "scored a i" "scored b i" "flags_at a i = flags_at b i"
  shows "row_at a i ''risk_score'' = row_at b i ''risk_score''"
    and "row_at a i ''risk_tier'' = row_at b i ''risk_tier''"
  using assms unfolding scored_def by auto

lemma server_flag_cells:
  assumes "wf df" "server_compute_flags p f df = Some out"
  shows "\<exists>m. astype_float f (col_or df ''Merchant Mix Index'' NaN) = Some m
    \<and> row_at out i ''flag_util_spike''
           = Some (util_spike (fillna (Num 0) (snum p df ''Utilisation %''))
               (fillna (Num 0) (snum p df ''Recent Spend Change %'')) ! i)
    \<and> row_at out i ''flag_min_due_streak''
           = Some (min_due_streak (fillna (Num 0) (snum p df ''Min Due Paid Frequency'')) ! i)
    \<and> row_at out i ''flag_low_pay_ratio''
           = Some (low_pay_ratio (fillna (Num 1)
               (fillna (Num 0) (rescale (snum p df ''Avg Payment Ratio'')))) ! i)
    \<and> row_at out i ''flag_cash_advance''
           = Some (cash_advance (fillna (Num 0) (snum p df ''Cash Withdrawal %''))
               (fillna (Num 0) (snum p df ''Utilisation %'')) ! i)
    \<and> row_at out i ''flag_merchant_shift''
           = Some (merchant_shift (fillna (Num 1) (rescale m)) ! i)"
proof -
  from server_run(2) [OF assms] obtain mm where mm: "server_mm f df = Some mm" and
    g: "\<And>c. c \<notin> {''risk_score'', ''risk_tier'', ''reasons''} \<Longrightarrow>
               get_col out c = server_cols p df mm c"
    by blast
  from mm obtain m where m: "astype_float f (col_or df ''Merchant Mix Index'' NaN) = Some m"
    "mm = rescale m"
    by (auto simp: server_mm_float [OF assms(1)])
  show ?thesis
    by (intro exI [of _ m] conjI) (simp_all add: m row_at_def g server_cols_def)
qed

lemma astype_float_append:
  assumes "astype_float f (a @ b) = Some r"
  shows "\<exists>ra rb. astype_float f a = Some ra \<and> r = ra @ rb \<and> length ra = length a"
proof -
  from assms have l: "list_all2 (\<lambda>x y. float_cell f x = Some y) (a @ b) r"
    by (simp only: astype_float_def those_map_Some)
  then obtain ra rb where r: "r = ra @ rb" "list_all2 (\<lambda>x y. float_cell f x = Some y) a ra"
    by (auto simp: list_all2_append1)
  from r(2) have "astype_float f a = Some ra" by (simp add: astype_float_def those_map_Some)
  moreover from r(2) have "length ra = length a" by (simp add: list_all2_lengthD)
  ultimately show ?thesis using r(1) by blast
qed

lemma fillna_nth: "i < length s \<Longrightarrow> fillna v s ! i = (if isnull (s ! i) then v else s ! i)"
  by (simp add: fillna_def)

text \<open>
  Claim C8 as amended. Appending records to a table never changes \<open>flag_util_spike\<close>,
  \<open>flag_min_due_streak\<close> and \<open>flag_cash_advance\<close> of a record already in it: they are
  functions of the record's own fields. Its \<open>flag_low_pay_ratio\<close> is unchanged when the
  appended records do not change whether the maximum of the Avg Payment Ratio column
  exceeds 1.5, its \<open>flag_merchant_shift\<close> when they do not change whether the maximum of the
  Merchant Mix Index column does, and its \<open>risk_score\<close> and \<open>risk_tier\<close> when both hold.
  This is said of two runs that return, and read backwards it is the removal of the last
  records of a table.
\<close>

theorem flags_under_append:
  assumes "wf df" and "wf extra" and "i < nrows df"
  shows "(compute_flags p df ''Merchant Mix Index'' = Some out
          \<and> compute_flags p (append_rows df extra) ''Merchant Mix Index'' = Some out2 \<longrightarrow>
            row_at out2 i ''flag_util_spike'' = row_at out i ''flag_util_spike''
          \<and> row_at out2 i ''flag_min_due_streak'' = row_at out i ''flag_min_due_streak''
          \<and> row_at out2 i ''flag_cash_advance'' = row_at out i ''flag_cash_advance''
          \<and> (apr_big p (append_rows df extra) = apr_big p df \<longrightarrow>
                row_at out2 i ''flag_low_pay_ratio'' = row_at out i ''flag_low_pay_ratio'')
          \<and> (mix_big (append_rows df extra) = mix_big df \<longrightarrow>
                row_at out2 i ''flag_merchant_shift'' = row_at out i ''flag_merchant_shift'')
          \<and> (apr_big p (append_rows df extra) = apr_big p df
               \<and> mix_big (append_rows df extra) = mix_big df \<longrightarrow>
                row_at out2 i ''risk_score'' = row_at out i ''risk_score''
              \<and> row_at out2 i ''risk_tier'' = row_at out i ''risk_tier''))
       \<and> (server_compute_flags p f df = Some out'
          \<and> server_compute_flags p f (append_rows df extra) = Some out2' \<longrightarrow>
            row_at out2' i ''flag_util_spike'' = row_at out' i ''flag_util_spike''
          \<and> row_at out2' i ''flag_min_due_streak'' = row_at out' i ''flag_min_due_streak''
          \<and> row_at out2' i ''flag_cash_advance'' = row_at out' i ''flag_cash_advance''
          \<and> (server_apr_big p (append_rows df extra) = server_apr_big p df \<longrightarrow>
                row_at out2' i ''flag_low_pay_ratio'' = row_at out' i ''flag_low_pay_ratio'')
          \<and> (server_mix_big f (append_rows df extra) = server_mix_big f df \<longrightarrow>
                row_at out2' i ''flag_merchant_shift'' = row_at out' i ''flag_merchant_shift'')
          \<and> (server_apr_big p (append_rows df extra) = server_apr_big p df
               \<and> server_mix_big f (append_rows df extra) = server_mix_big f df \<longrightarrow>
                row_at out2' i ''risk_score'' = row_at out' i ''risk_score''
              \<and> row_at out2' i ''risk_tier'' = row_at out' i ''risk_tier''))"
proof (intro conjI impI)
  let ?A = "append_rows df extra"
  have wA: "wf ?A" using assms(1,2) by (rule wf_append_rows)
  have iA: "i < nrows ?A" using assms(3) by simp
  have li: "i < length (bnum p df c)" for c using assms by simp
  assume "compute_flags p df ''Merchant Mix Index'' = Some out
          \<and> compute_flags p ?A ''Merchant Mix Index'' = Some out2"
  then have run: "compute_flags p df ''Merchant Mix Index'' = Some out"
    and run2: "compute_flags p ?A ''Merchant Mix Index'' = Some out2" by simp_all
  note c = batch_flag_cells [OF assms(1) run, of i]
  note c2 = batch_flag_cells [OF wA run2, of i]
  show 1: "row_at out2 i ''flag_util_spike'' = row_at out i ''flag_util_spike''"
    unfolding c c2 by (simp add: bnum_append_rows util_spike_append li)
  show 2: "row_at out2 i ''flag_min_due_streak'' = row_at out i ''flag_min_due_streak''"
    unfolding c c2 by (simp add: bnum_append_rows min_due_streak_append li)
  show 4: "row_at out2 i ''flag_cash_advance'' = row_at out i ''flag_cash_advance''"
    unfolding c c2 by (simp add: bnum_append_rows cash_advance_append li)
  have 3: "row_at out2 i ''flag_low_pay_ratio'' = row_at out i ''flag_low_pay_ratio''"
    if "apr_big p ?A = apr_big p df"
  proof -
    from that have "rescale (bnum p ?A ''Avg Payment Ratio'') ! i
        = rescale (bnum p df ''Avg Payment Ratio'') ! i"
      unfolding apr_big_def bnum_append_rows by (intro rescale_append_nth li)
    then show ?thesis
      unfolding c c2 using assms wA iA
      by (intro arg_cong [where f = Some] low_pay_ratio_cong) simp_all
  qed
  have 5: "row_at out2 i ''flag_merchant_shift'' = row_at out i ''flag_merchant_shift''"
    if "mix_big ?A = mix_big df"
  proof -
    have "i < length (col_or df ''Merchant Mix Index'' NaN)" using assms by (simp add: length_col_or)
    with that have "rescale (col_or ?A ''Merchant Mix Index'' NaN) ! i
        = rescale (col_or df ''Merchant Mix Index'' NaN) ! i"
      unfolding mix_big_def col_or_append_rows by (intro rescale_append_nth)
    then show ?thesis
      unfolding c c2 using assms wA
      by (intro arg_cong [where f = Some] merchant_shift_cong) (simp_all add: length_col_or)
  qed
  show "row_at out2 i ''flag_low_pay_ratio'' = row_at out i ''flag_low_pay_ratio''"
    if "apr_big p ?A = apr_big p df" using that by (rule 3)
  show "row_at out2 i ''flag_merchant_shift'' = row_at out i ''flag_merchant_shift''"
    if "mix_big ?A = mix_big df" using that by (rule 5)
  assume b: "apr_big p ?A = apr_big p df \<and> mix_big ?A = mix_big df"
  from batch_run(2) [OF assms(1) run] assms(3) have s: "scored out i" by blast
  from batch_run(2) [OF wA run2] iA have s2: "scored out2 i" by blast
  from b have "flags_at out2 i = flags_at out i"
    by (simp only: flags_at_rows 1 2 4 3 5)
  with s2 s show "row_at out2 i ''risk_score'' = row_at out i ''risk_score''"
    "row_at out2 i ''risk_tier'' = row_at out i ''risk_tier''"
    by (rule scored_same_flags)+
next
  let ?A = "append_rows df extra"
  have wA: "wf ?A" using assms(1,2) by (rule wf_append_rows)
  have iA: "i < nrows ?A" using assms(3) by simp
  have li: "i < length (fillna v (snum p df c))" for c v using assms by simp
  assume "server_compute_flags p f df = Some out'
          \<and> server_compute_flags p f ?A = Some out2'"
  then have run: "server_compute_flags p f df = Some out'"
    and run2: "server_compute_flags p f ?A = Some out2'" by simp_all
  from server_flag_cells [OF assms(1) run, of i] obtain m where
    m: "astype_float f (col_or df ''Merchant Mix Index'' NaN) = Some m" and
    c: "row_at out' i ''flag_util_spike''
           = Some (util_spike (fillna (Num 0) (snum p df ''Utilisation %''))
               (fillna (Num 0) (snum p df ''Recent Spend Change %'')) ! i)"
      "row_at out' i ''flag_min_due_streak''
           = Some (min_due_streak (fillna (Num 0) (snum p df ''Min Due Paid Frequency'')) ! i)"
      "row_at out' i ''flag_low_pay_ratio''
           = Some (low_pay_ratio (fillna (Num 1)
               (fillna (Num 0) (rescale (snum p df ''Avg Payment Ratio'')))) ! i)"
      "row_at out' i ''flag_cash_advance''
           = Some (cash_advance (fillna (Num 0) (snum p df ''Cash Withdrawal %''))
               (fillna (Num 0) (snum p df ''Utilisation %'')) ! i)"
      "row_at out' i ''flag_merchant_shift''
           = Some (merchant_shift (fillna (Num 1) (rescale m)) ! i)"
    by (elim exE conjE)
  from server_flag_cells [OF wA run2, of i] obtain m2 where
    m2: "astype_float f (col_or ?A ''Merchant Mix Index'' NaN) = Some m2" and
    c2: "row_at out2' i ''flag_util_spike''
           = Some (util_spike (fillna (Num 0) (snum p ?A ''Utilisation %''))
               (fillna (Num 0) (snum p ?A ''Recent Spend Change %'')) ! i)"
      "row_at out2' i ''flag_min_due_streak''
           = Some (min_due_streak (fillna (Num 0) (snum p ?A ''Min Due Paid Frequency'')) ! i)"
      "row_at out2' i ''flag_low_pay_ratio''
           = Some (low_pay_ratio (fillna (Num 1)
               (fillna (Num 0) (rescale (snum p ?A ''Avg Payment Ratio'')))) ! i)"
      "row_at out2' i ''flag_cash_advance''
           = Some (cash_advance (fillna (Num 0) (snum p ?A ''Cash Withdrawal %''))
               (fillna (Num 0) (snum p ?A ''Utilisation %'')) ! i)"
      "row_at out2' i ''flag_merchant_shift''
           = Some (merchant_shift (fillna (Num 1) (rescale m2)) ! i)"
    by (elim exE conjE)
  show 1: "row_at out2' i ''flag_util_spike'' = row_at out' i ''flag_util_spike''"
    unfolding c c2 by (simp add: snum_append_rows fillna_append util_spike_append assms)
  show 2: "row_at out2' i ''flag_min_due_streak'' = row_at out' i ''flag_min_due_streak''"
    unfolding c c2 by (simp add: snum_append_rows fillna_append min_due_streak_append assms)
  show 4: "row_at out2' i ''flag_cash_advance'' = row_at out' i ''flag_cash_advance''"
    unfolding c c2 by (simp add: snum_append_rows fillna_append cash_advance_append assms)
  have 3: "row_at out2' i ''flag_low_pay_ratio'' = row_at out' i ''flag_low_pay_ratio''"
    if "server_apr_big p ?A = server_apr_big p df"
  proof -
    have "i < length (snum p df ''Avg Payment Ratio'')" using assms by simp
    with that have "rescale (snum p ?A ''Avg Payment Ratio'') ! i
        = rescale (snum p df ''Avg Payment Ratio'') ! i"
      unfolding server_apr_big_def snum_append_rows by (intro rescale_append_nth)
    then show ?thesis
      unfolding c c2 using assms wA iA
      by (intro arg_cong [where f = Some] low_pay_ratio_cong) (simp_all add: fillna_nth)
  qed
  have 5: "row_at out2' i ''flag_merchant_shift'' = row_at out' i ''flag_merchant_shift''"
    if "server_mix_big f ?A = server_mix_big f df"
  proof -
    from m2 obtain ra rb where
      r: "astype_float f (col_or df ''Merchant Mix Index'' NaN) = Some ra" "m2 = ra @ rb"
      unfolding col_or_append_rows by (blast dest: astype_float_append)
    with m have "ra = m" by simp
    have lm: "i < length m" using astype_float_Some(3) [OF m] assms by (simp add: length_col_or)
    from that have "exceeds (m @ rb) 1.5 = exceeds m 1.5"
      by (simp add: server_mix_big_def m m2 r(2) \<open>ra = m\<close>)
    with lm have "rescale m2 ! i = rescale m ! i"
      unfolding r(2) \<open>ra = m\<close> by (intro rescale_append_nth)
    then show ?thesis
      unfolding c c2 using lm
      by (intro arg_cong [where f = Some] merchant_shift_cong)
         (simp_all add: fillna_nth r(2) \<open>ra = m\<close>)
  qed
  show "row_at out2' i ''flag_low_pay_ratio'' = row_at out' i ''flag_low_pay_ratio''"
    if "server_apr_big p ?A = server_apr_big p df" using that by (rule 3)
  show "row_at out2' i ''flag_merchant_shift'' = row_at out' i ''flag_merchant_shift''"
    if "server_mix_big f ?A = server_mix_big f df" using that by (rule 5)
  assume b: "server_apr_big p ?A = server_apr_big p df
      \<and> server_mix_big f ?A = server_mix_big f df"
  from server_run(2) [OF assms(1) run] assms(3) have s: "scored out' i" by blast
  from server_run(2) [OF wA run2] iA have s2: "scored out2' i" by blast
  from b have "flags_at out2' i = flags_at out' i"
    by (simp only: flags_at_rows 1 2 4 3 5)
  with s2 s show "row_at out2' i ''risk_score'' = row_at out' i ''risk_score''"
    "row_at out2' i ''risk_tier'' = row_at out' i ''risk_tier''"
    by (rule scored_same_flags)+
qed

lemma wf_ratio_tables: "wf lone_ratio" "wf late_ratio" "wf third_customer"
  by (simp_all add: wf_def lone_ratio_def late_ratio_def third_customer_def)

lemma ratio_tables_cols:
  "col_or lone_ratio ''Avg Payment Ratio'' NaN = [Num 1]"
  "col_or (append_rows lone_ratio late_ratio) ''Avg Payment Ratio'' NaN = [Num 1, Num 50]"
  "col_or lone_ratio ''Merchant Mix Index'' NaN = [NaN]"
  "col_or (append_rows lone_ratio late_ratio) ''Merchant Mix Index'' NaN = [NaN, NaN]"
  "get_col lone_ratio ''Current DPD Bucket'' = None"
  "get_col (append_rows lone_ratio late_ratio) ''Current DPD Bucket'' = None"
  "get_col lone_ratio ''Merchant Mix Index'' = None"
  "get_col (append_rows lone_ratio late_ratio) ''Merchant Mix Index'' = None"
  "nrows lone_ratio = 1" "nrows late_ratio = 1"
  by (simp_all add: col_or_append_rows appended_def get_col_append_rows)
     (simp_all add: col_or_def get_col_def lone_ratio_def late_ratio_def)

text \<open>
  Claim C8 fails on the flags that read a normalised column: a record with payment ratio
  1 alone in its table is not flagged (1 is not at most 0.4), and is flagged once a record
  with ratio 50 is appended, because the maximum of the column is then above 1.5 and the
  whole column is divided by 100. Both engines do so.
\<close>

theorem appended_record_changes_flag_counterexample:
  "out_col (compute_flags no_text lone_ratio ''Merchant Mix Index'') ''flag_low_pay_ratio''
     = Some [Num 0]
   \<and> out_col (compute_flags no_text (append_rows lone_ratio late_ratio) ''Merchant Mix Index'')
       ''flag_low_pay_ratio'' = Some [Num 1, Num 0]
   \<and> out_col (server_compute_flags no_text no_float lone_ratio) ''flag_low_pay_ratio''
     = Some [Num 0]
   \<and> out_col (server_compute_flags no_text no_float (append_rows lone_ratio late_ratio))
       ''flag_low_pay_ratio'' = Some [Num 1, Num 0]"
proof -
  let ?A = "append_rows lone_ratio late_ratio"
  have wA: "wf ?A" by (rule wf_append_rows) (rule wf_ratio_tables)+
  have r: "rescale (bnum no_text lone_ratio ''Avg Payment Ratio'') = [Num 1]"
    "rescale (bnum no_text ?A ''Avg Payment Ratio'') = [Num 0.01, Num 0.5]"
    "rescale (snum no_text lone_ratio ''Avg Payment Ratio'') = [Num 1]"
    "rescale (snum no_text ?A ''Avg Payment Ratio'') = [Num 0.01, Num 0.5]"
    by (simp_all add: bnum_def snum_def ratio_tables_cols to_numeric_def fillna_def rescale_def
        scaled_def exceeds_def clip01_def)
  have mm: "server_mm no_float lone_ratio = Some [NaN]" "server_mm no_float ?A = Some [NaN, NaN]"
    by (simp_all add: server_mm_def ratio_tables_cols)
  have 1: "out_col (compute_flags no_text lone_ratio ''Merchant Mix Index'') ''flag_low_pay_ratio''
     = Some [Num 0]"
    by (subst batch_out_col [OF wf_ratio_tables(1)])
       (simp_all add: ratio_tables_cols dpd_comparable_def batch_cols_def r low_pay_ratio_def
          astype_int_def)
  have 2: "out_col (compute_flags no_text ?A ''Merchant Mix Index'') ''flag_low_pay_ratio''
     = Some [Num 1, Num 0]"
    by (subst batch_out_col [OF wA])
       (simp_all add: ratio_tables_cols dpd_comparable_def batch_cols_def r low_pay_ratio_def
          astype_int_def)
  have 3: "out_col (server_compute_flags no_text no_float lone_ratio) ''flag_low_pay_ratio''
     = Some [Num 0]"
    by (simp add: server_out_col [OF wf_ratio_tables(1) mm(1)] server_cols_def r fillna_def
        low_pay_ratio_def astype_int_def)
  have 4: "out_col (server_compute_flags no_text no_float ?A) ''flag_low_pay_ratio''
     = Some [Num 1, Num 0]"
    by (simp add: server_out_col [OF wA mm(2)] server_cols_def r fillna_def
        low_pay_ratio_def astype_int_def)
  from 1 2 3 4 show ?thesis by (intro conjI)
qed

lemma three_customers_cols:
  "col_or (append_rows two_customers third_customer) ''Avg Payment Ratio'' NaN
     = [Num 90, Num 30, Num 50]"
  "col_or (append_rows two_customers third_customer) ''Merchant Mix Index'' NaN
     = [Num 0.9, Num 0.2, Num 0.5]"
  "get_col (append_rows two_customers third_customer) ''Current DPD Bucket'' = None"
  by (simp_all add: col_or_append_rows appended_def get_col_append_rows two_customers_cols)
     (simp_all add: col_or_def get_col_def two_customers_def third_customer_def)

theorem flags_under_append_witness:
  "wf two_customers \<and> wf third_customer \<and> 1 < nrows two_customers
   \<and> apr_big no_text (append_rows two_customers third_customer) = apr_big no_text two_customers
   \<and> mix_big (append_rows two_customers third_customer) = mix_big two_customers
   \<and> server_apr_big no_text (append_rows two_customers third_customer)
       = server_apr_big no_text two_customers
   \<and> server_mix_big no_float (append_rows two_customers third_customer)
       = server_mix_big no_float two_customers
   \<and> (\<exists>out out2. compute_flags no_text two_customers ''Merchant Mix Index'' = Some out
        \<and> compute_flags no_text (append_rows two_customers third_customer) ''Merchant Mix Index''
            = Some out2
        \<and> row_at out 1 ''risk_score'' = Some (Num 2)
        \<and> row_at out2 1 ''risk_score'' = Some (Num 2)
        \<and> row_at out2 1 ''flag_util_spike'' = row_at out 1 ''flag_util_spike'')
   \<and> (\<exists>out out2. server_compute_flags no_text no_float two_customers = Some out
        \<and> server_compute_flags no_text no_float (append_rows two_customers third_customer)
            = Some out2
        \<and> row_at out 1 ''risk_score'' = Some (Num 2)
        \<and> row_at out2 1 ''risk_score'' = Some (Num 2)
        \<and> row_at out2 1 ''flag_util_spike'' = row_at out 1 ''flag_util_spike'')"
proof -
  let ?A = "append_rows two_customers third_customer"
  have wA: "wf ?A" by (rule wf_append_rows) (rule wf_two_customers wf_ratio_tables)+
  have n: "1 < nrows two_customers" by (simp add: two_customers_cols)
  have a: "apr_big no_text ?A = apr_big no_text two_customers"
    by (simp add: apr_big_def bnum_def three_customers_cols two_customers_cols to_numeric_def
        fillna_def exceeds_def)
  have m: "mix_big ?A = mix_big two_customers"
    by (simp add: mix_big_def three_customers_cols two_customers_cols exceeds_def)
  have a': "server_apr_big no_text ?A = server_apr_big no_text two_customers"
    by (simp add: server_apr_big_def snum_def three_customers_cols two_customers_cols to_numeric_def
        exceeds_def)
  have fl: "astype_float no_float (col_or ?A ''Merchant Mix Index'' NaN)
      = Some [Num 0.9, Num 0.2, Num 0.5]"
    "astype_float no_float (col_or two_customers ''Merchant Mix Index'' NaN)
      = Some [Num 0.9, Num 0.2]"
    by (simp_all add: three_customers_cols two_customers_cols astype_float_def)
  have m': "server_mix_big no_float ?A = server_mix_big no_float two_customers"
    by (simp add: server_mix_big_def fl exceeds_def)
  from two_customers_batch_runs obtain out where
    out: "compute_flags no_text two_customers ''Merchant Mix Index'' = Some out" ..
  from batch_run(1) [OF wA, of no_text] obtain out2 where
    out2: "compute_flags no_text ?A ''Merchant Mix Index'' = Some out2"
    by (auto simp: three_customers_cols dpd_comparable_def)
  from two_customers_server_runs(2) obtain out' where
    out': "server_compute_flags no_text no_float two_customers = Some out'" ..
  have "server_mm no_float ?A \<noteq> None"
    by (simp add: server_mm_float [OF wA] fl)
  with server_run(1) [OF wA, of no_text no_float] obtain out2' where
    out2': "server_compute_flags no_text no_float ?A = Some out2'" by auto
  have f: "flags_at out 1 = Some [Num 0, Num 0, Num 1, Num 0, Num 1]"
    using batch_flags_at [OF wf_two_customers out, of 1] by (simp only: two_customers_batch_flags)
  have f': "flags_at out' 1 = Some [Num 0, Num 0, Num 1, Num 0, Num 1]"
    using server_flags_at [OF wf_two_customers out', of 1]
    by (simp only: two_customers_server_runs(1) two_customers_server_flags option.inject simp_thms ex_simps)
  from batch_run(2) [OF wf_two_customers out] n have "scored out 1" by blast
  with f have s: "row_at out 1 ''risk_score'' = Some (Num 2)"
    by (auto simp: scored_def count_true_def)
  from server_run(2) [OF wf_two_customers out'] n have "scored out' 1" by blast
  with f' have s': "row_at out' 1 ''risk_score'' = Some (Num 2)"
    by (auto simp: scored_def count_true_def)
  note t = flags_under_append [OF wf_two_customers wf_ratio_tables(3) n,
      of no_text out out2 no_float out' out2']
  note tb = t [THEN conjunct1, THEN mp, OF conjI [OF out out2]]
  note ts = t [THEN conjunct2, THEN mp, OF conjI [OF out' out2']]
  from tb [THEN conjunct1] have 1: "row_at out2 1 ''flag_util_spike'' = row_at out 1 ''flag_util_spike''" .
  from tb [THEN conjunct2, THEN conjunct2, THEN conjunct2, THEN conjunct2, THEN conjunct2,
      THEN mp, OF conjI [OF a m], THEN conjunct1] s
  have 2: "row_at out2 1 ''risk_score'' = Some (Num 2)" by simp
  from ts [THEN conjunct1]
  have 3: "row_at out2' 1 ''flag_util_spike'' = row_at out' 1 ''flag_util_spike''" .
  from ts [THEN conjunct2, THEN conjunct2, THEN conjunct2, THEN conjunct2, THEN conjunct2,
      THEN mp, OF conjI [OF a' m'], THEN conjunct1] s'
  have 4: "row_at out2' 1 ''risk_score'' = Some (Num 2)" by simp
  show ?thesis
    by (intro conjI exI [of _ out] exI [of _ out2] exI [of _ out'] exI [of _ out2'])
       (rule wf_two_customers wf_ratio_tables(3) n a m a' m' out out2 out' out2' s s' 1 2 3 4)+
qed

end
